theory Spec2Isabelle
  imports Main "HOL-Library.Sublist"
begin

text \<open>
  A model of the page step of the web crawler: the link filter, the page extractor
  (\<open>src/lambda/crawler/core.ts\<close>) and the step that marks a path as visited, crawls it
  and queues the paths it discovered (\<open>src/lambda/steps/3_crawlPageAndQueueUrls.ts\<close>).
  Asynchronous functions are functions from a state to a result and a state; a thrown
  error or a rejected promise is the result \<open>Inl\<close>.
\<close>

section \<open>Strings\<close>

text \<open>
  A JavaScript string is modelled as a \<^typ>\<open>string\<close> whose characters are code units below
  256 (ASCII and the Latin-1 supplement); this covers every serialised URL.
\<close>

definition startsWith :: "string \<Rightarrow> string \<Rightarrow> bool" where
  \<comment> \<open>\<open>s.startsWith(p)\<close>\<close>
  "startsWith s p = prefix p s"

fun str_includes :: "string \<Rightarrow> string \<Rightarrow> bool" where
  \<comment> \<open>\<open>s.includes(k)\<close>: \<open>k\<close> occurs in \<open>s\<close> as a contiguous run\<close>
  "str_includes [] k = (k = [])"
| "str_includes (c # s) k = (prefix k (c # s) \<or> str_includes s k)"

definition toLowerCase_char :: "char \<Rightarrow> char" where
  \<comment> \<open>the lower-case mapping of Unicode on U+0000..U+00FF: A--Z and the capital letters
      U+00C0..U+00DE (U+00D7 is the multiplication sign) move up by 32\<close>
  "toLowerCase_char c =
     (let n = (of_char c :: nat)
      in if (65 \<le> n \<and> n \<le> 90) \<or> (192 \<le> n \<and> n \<le> 222 \<and> n \<noteq> 215)
         then char_of (n + 32) else c)"

definition toLowerCase :: "string \<Rightarrow> string" where
  "toLowerCase s = map toLowerCase_char s"

fun split_on :: "char \<Rightarrow> string \<Rightarrow> string list" where
  \<comment> \<open>\<open>s.split(sep)\<close> for a one-character separator\<close>
  "split_on sep [] = [[]]"
| "split_on sep (c # cs) =
     (if c = sep then [] # split_on sep cs
      else (case split_on sep cs of p # ps \<Rightarrow> (c # p) # ps | [] \<Rightarrow> [[c]]))"

fun join_with :: "char \<Rightarrow> string list \<Rightarrow> string" where
  \<comment> \<open>\<open>parts.join(sep)\<close>\<close>
  "join_with sep [] = []"
| "join_with sep [p] = p"
| "join_with sep (p # q # ps) = p @ sep # join_with sep (q # ps)"

definition slice :: "nat \<Rightarrow> nat \<Rightarrow> 'a list \<Rightarrow> 'a list" where
  \<comment> \<open>\<open>xs.slice(a, b)\<close> for indices that are not negative\<close>
  "slice a b xs = take (b - a) (drop a xs)"

subsection \<open>\<open>encodeURIComponent\<close>\<close>

definition hex_digit :: "nat \<Rightarrow> char" where
  "hex_digit d = ''0123456789ABCDEF'' ! (d mod 16)"

definition percent_byte :: "nat \<Rightarrow> string" where
  "percent_byte b = [CHR ''%'', hex_digit (b div 16), hex_digit b]"

definition uri_unreserved :: "char \<Rightarrow> bool" where
  \<comment> \<open>the characters \<open>encodeURIComponent\<close> leaves alone: letters, digits and
      \<open>- _ . ! ~ * ' ( )\<close> (the apostrophe is code 39)\<close>
  "uri_unreserved c =
     (let n = (of_char c :: nat)
      in (65 \<le> n \<and> n \<le> 90) \<or> (97 \<le> n \<and> n \<le> 122) \<or> (48 \<le> n \<and> n \<le> 57)
         \<or> c \<in> set ''-_.!~*()'' \<or> n = 39)"

definition encode_unit :: "char \<Rightarrow> string" where
  \<comment> \<open>every other code unit is written as the percent-encoded bytes of its UTF-8 form:
      one byte below 128, two bytes from 128 to 255\<close>
  "encode_unit c =
     (let n = (of_char c :: nat)
      in if uri_unreserved c then [c]
         else if n < 128 then percent_byte n
         else percent_byte (192 + n div 64) @ percent_byte (128 + n mod 64))"

definition encodeURIComponent :: "string \<Rightarrow> string" where
  "encodeURIComponent s = concat (map encode_unit s)"

subsection \<open>\<open>path.join\<close> (POSIX)\<close>

text \<open>
  The key of a stored page is built with \<open>path.join\<close> of Node.js, which joins its
  non-empty arguments with \<open>/\<close> and normalises the result.
\<close>

fun normalizeString :: "bool \<Rightarrow> string list \<Rightarrow> string list \<Rightarrow> string list" where
  \<comment> \<open>the segments of a path, resolved from left to right onto \<open>res\<close>: empty and \<open>.\<close>
      segments are dropped, \<open>..\<close> removes the segment before it, or stays when there is
      none to remove and the path is relative (\<open>allowAboveRoot\<close>)\<close>
  "normalizeString allowAboveRoot res [] = res"
| "normalizeString allowAboveRoot res (seg # segs) =
     (if seg = [] \<or> seg = ''.'' then normalizeString allowAboveRoot res segs
      else if seg = ''..'' then
        (if res \<noteq> [] \<and> last res \<noteq> ''..''
         then normalizeString allowAboveRoot (butlast res) segs
         else if allowAboveRoot then normalizeString allowAboveRoot (res @ [''..'']) segs
         else normalizeString allowAboveRoot res segs)
      else normalizeString allowAboveRoot (res @ [seg]) segs)"

definition path_normalize :: "string \<Rightarrow> string" where
  "path_normalize p =
     (if p = [] then ''.''
      else
        (let isAbsolute = (hd p = CHR ''/'');
             trailingSeparator = (last p = CHR ''/'');
             q = join_with CHR ''/''
                   (normalizeString (\<not> isAbsolute) [] (split_on CHR ''/'' p))
         in if q = [] then (if isAbsolute then ''/'' else if trailingSeparator then ''./'' else ''.'')
            else (if isAbsolute then ''/'' else []) @ q @ (if trailingSeparator then ''/'' else [])))"

definition path_join :: "string list \<Rightarrow> string" where
  \<comment> \<open>\<open>path.join(...args)\<close>: the non-empty arguments joined by \<open>/\<close>, then normalised\<close>
  "path_join args =
     (let joined = filter (\<lambda>arg. arg \<noteq> []) args
      in if joined = [] then ''.'' else path_normalize (join_with CHR ''/'' joined))"

definition plain_segment :: "string \<Rightarrow> bool" where
  \<comment> \<open>a path segment that \<open>path.join\<close> leaves as it is\<close>
  "plain_segment seg = (seg \<noteq> [] \<and> seg \<noteq> ''.'' \<and> seg \<noteq> ''..'')"

section \<open>The link filter (crawler/core.ts)\<close>

definition isUrlWithinBaseWebsite :: "string \<Rightarrow> string \<Rightarrow> bool" where
  \<comment> \<open>\<open>!url.startsWith('http') || url.startsWith(baseUrl)\<close>\<close>
  "isUrlWithinBaseWebsite url baseUrl =
     (\<not> startsWith url ''http'' \<or> startsWith url baseUrl)"

definition isUrlMatchingSomeKeyword :: "string \<Rightarrow> string list option \<Rightarrow> bool" where
  \<comment> \<open>\<open>!keywords || keywords.length === 0 ||
      keywords.some((keyword) => url.toLowerCase().includes(keyword))\<close>;
      an absent \<open>keywords\<close> argument is \<open>None\<close>\<close>
  "isUrlMatchingSomeKeyword url keywords =
     (case keywords of
        None \<Rightarrow> True
      | Some ks \<Rightarrow> ks = [] \<or> list_ex (\<lambda>keyword. str_includes (toLowerCase url) keyword) ks)"

section \<open>Data (crawler/types.ts) and the outside world\<close>

datatype error =
    InvalidURL  \<comment> \<open>the \<open>TypeError\<close> of \<open>new URL\<close> on an input that is not a valid URL\<close>
  | Thrown string  \<comment> \<open>whatever an external call threw or rejected with\<close>

type_synonym browser = nat
type_synonym page = nat

record URL =
  href :: string
  origin :: string
  pathname :: string

record Response =
  ok :: bool
  header_Last_Modified :: "string option"  \<comment> \<open>\<open>response.headers.get('Last-Modified')\<close>\<close>

record Metadata =
  md_title :: string
  md_last_modified :: string
  md_url :: string

record PageContent =
  metadata :: Metadata
  html :: string

record CrawlDestination =
  s3KeyPrefix :: string

record CrawlPageInput =
  in_baseUrl :: string
  in_path :: string
  in_pathKeywords :: "string list option"

record CrawlContext =
  contextTableName :: string
  ctx_baseUrl :: string
  ctx_pathKeywords :: "string list option"
  crawlName :: string

text \<open>
  The library functions the crawler calls and does not define are parameters: the URL
  parser (\<open>None\<close> where \<open>new URL\<close> throws), the serialiser, the HTML-to-markdown
  translation, the robots.txt parser (\<open>None\<close> where \<open>isAllowed\<close> is undefined), and the
  bucket name read from the environment.
\<close>

record lib =
  S3_DATA_BUCKET :: string
  new_URL :: "string \<Rightarrow> string option \<Rightarrow> URL option"
  JSON_stringify :: "PageContent \<Rightarrow> string"
  nhm_translate :: "string \<Rightarrow> string"
  robots_isAllowed :: "string \<Rightarrow> string \<Rightarrow> string \<Rightarrow> bool option"

text \<open>
  The outside world answers every external call: the frontier store
  (utils/contextTable), the browser, the pages it opens, HTTP and the blob store.
  \<open>Inl\<close> is a call that throws or whose promise rejects.
\<close>

record world =
  markPathAsVisited_result :: "string \<Rightarrow> string \<Rightarrow> error + unit"
  queuePaths_result :: "string \<Rightarrow> string list \<Rightarrow> error + unit"
  executablePath_result :: "error + string"
  launch_result :: "string \<Rightarrow> error + browser"
  close_result :: "browser \<Rightarrow> error + unit"
  newPage_result :: "browser \<Rightarrow> error + page"
  goto_result :: "page \<Rightarrow> string \<Rightarrow> error + unit"
  page_url :: "page \<Rightarrow> string"
  evaluate_title :: "page \<Rightarrow> error + string"
  evaluate_innerHTML :: "page \<Rightarrow> error + string"
  evaluate_hrefs :: "page \<Rightarrow> error + string option list"
  evaluate_location_href :: "page \<Rightarrow> error + string"
  fetch_head :: "string \<Rightarrow> error + Response"
  fetch_text :: "string \<Rightarrow> error + string"
  putObject_result :: "string \<Rightarrow> string \<Rightarrow> string \<Rightarrow> error + unit"

text \<open>
  The state a step changes: the log of the external calls it has awaited, each with the
  error it failed with (if any), in the order they were issued, and the objects of the
  blob store, by bucket and key.
\<close>

datatype call =
    MarkPathAsVisited string string
  | ExecutablePath
  | Launch string
  | NewPage browser
  | Goto page string
  | EvaluateTitle page
  | FetchHead string
  | EvaluateInnerHTML page
  | PutObject string string string
  | EvaluateHrefs page
  | EvaluateLocationHref page
  | QueuePaths string "string list"
  | Close browser

record state =
  log :: "(call \<times> error option) list"
  objects :: "string \<times> string \<Rightarrow> string option"

type_synonym 'a prog = "state \<Rightarrow> (error + 'a) \<times> state"

definition failure :: "error + 'a \<Rightarrow> error option" where
  "failure r = (case r of Inl e \<Rightarrow> Some e | Inr _ \<Rightarrow> None)"

definition perform :: "call \<Rightarrow> error + 'a \<Rightarrow> 'a prog" where
  \<comment> \<open>an awaited external call: it is logged with its outcome\<close>
  "perform c r s = (r, s\<lparr>log := log s @ [(c, failure r)]\<rparr>)"

definition calls_of :: "'a prog \<Rightarrow> state \<Rightarrow> (call \<times> error option) list" where
  \<comment> \<open>the calls a run of \<open>m\<close> from \<open>s\<close> adds to the log\<close>
  "calls_of m s = drop (length (log s)) (log (snd (m s)))"

definition await :: "'a prog \<Rightarrow> ('a \<Rightarrow> 'b prog) \<Rightarrow> 'b prog" where
  \<comment> \<open>\<open>const x = await m; ...\<close>: an error of \<open>m\<close> ends the block\<close>
  "await m f s = (case m s of (Inl e, s') \<Rightarrow> (Inl e, s') | (Inr x, s') \<Rightarrow> f x s')"

definition return :: "'a \<Rightarrow> 'a prog" where
  "return x s = (Inr x, s)"

definition throw :: "error \<Rightarrow> 'a prog" where
  "throw e s = (Inl e, s)"

definition finally_return :: "'a prog \<Rightarrow> 'b \<Rightarrow> 'b prog" where
  \<comment> \<open>\<open>try { m } finally { return v }\<close>: the \<open>return\<close> of the \<open>finally\<close> block replaces
      the completion of the \<open>try\<close> block, a returned value and a thrown error alike\<close>
  "finally_return m v s = (Inr v, snd (m s))"

section \<open>The page extractor (crawler/core.ts)\<close>

definition getLastModified :: "world \<Rightarrow> string \<Rightarrow> string prog" where
  \<comment> \<open>\<open>try { const response = await fetch(url, {method: 'HEAD'});
            if (response.ok) { return response.headers.get('Last-Modified') || '' } }
      finally { return '' }\<close>\<close>
  "getLastModified w u =
     finally_return
       (await (perform (FetchHead u) (fetch_head w u))
          (\<lambda>response.
             if ok response
             then return (Some (case header_Last_Modified response of
                                  None \<Rightarrow> []
                                | Some lastModifiedHeader \<Rightarrow>
                                    if lastModifiedHeader = [] then [] else lastModifiedHeader))
             else return None))
       []"

definition extractContent :: "lib \<Rightarrow> world \<Rightarrow> page \<Rightarrow> PageContent prog" where
  \<comment> \<open>\<open>Promise.all\<close> of the title, the last-modified date, the URL and the body: all are
      started, in this order, and the first one that failed (from the left) fails the
      whole\<close>
  "extractContent l w pg s =
     (let (title, s1) = perform (EvaluateTitle pg) (evaluate_title w pg) s;
          (lastModified, s2) = getLastModified w (page_url w pg) s1;
          (htmlContent, s3) = perform (EvaluateInnerHTML pg) (evaluate_innerHTML w pg) s2
      in case title of
           Inl e \<Rightarrow> (Inl e, s3)
         | Inr title' \<Rightarrow>
             (case lastModified of
                Inl e \<Rightarrow> (Inl e, s3)
              | Inr lastModified' \<Rightarrow>
                  (case htmlContent of
                     Inl e \<Rightarrow> (Inl e, s3)
                   | Inr htmlContent' \<Rightarrow>
                       (Inr \<lparr>metadata = \<lparr>md_title = title',
                                          md_last_modified = lastModified',
                                          md_url = page_url w pg\<rparr>,
                             html = nhm_translate l htmlContent'\<rparr>, s3))))"

definition putObject :: "lib \<Rightarrow> world \<Rightarrow> string \<Rightarrow> string \<Rightarrow> unit prog" where
  \<comment> \<open>\<open>s3.putObject({Bucket, Key, Body}).promise()\<close>: the object is stored when the call
      succeeds\<close>
  "putObject l w key body s =
     (case perform (PutObject (S3_DATA_BUCKET l) key body)
             (putObject_result w (S3_DATA_BUCKET l) key body) s of
        (Inl e, s') \<Rightarrow> (Inl e, s')
      | (Inr u, s') \<Rightarrow> (Inr u, s'\<lparr>objects := (objects s')((S3_DATA_BUCKET l, key) \<mapsto> body)\<rparr>))"

definition writePageToS3 ::
  "lib \<Rightarrow> world \<Rightarrow> string \<Rightarrow> PageContent \<Rightarrow> CrawlDestination \<Rightarrow> unit prog" where
  \<comment> \<open>\<open>!content.html\<close> is the empty string; \<open>content.metadata\<close> is an object, never falsy\<close>
  "writePageToS3 l w u content destination =
     (if html content = [] then return ()
      else
        (let documentKey = path_join [s3KeyPrefix destination, encodeURIComponent u @ ''.html'']
         in putObject l w documentKey (JSON_stringify l content)))"

definition isUrlAllowedInRobots :: "lib \<Rightarrow> world \<Rightarrow> string \<Rightarrow> bool" where
  \<comment> \<open>the value the promise of \<open>isUrlAllowedInRobots\<close> resolves to; it never rejects:
      \<open>try { const url = new URL(urlString); const robotsURL = url.origin + "/robots.txt";
            ... return robots.isAllowed(urlString) || false } catch (error) { return true }\<close>\<close>
  "isUrlAllowedInRobots l w urlString =
     (case new_URL l urlString None of
        None \<Rightarrow> True
      | Some u \<Rightarrow>
          (let robotsURL = origin u @ ''/robots.txt''
           in case fetch_text w robotsURL of
                Inl e \<Rightarrow> True
              | Inr robotsTxt \<Rightarrow>
                  (case robots_isAllowed l robotsURL robotsTxt urlString of
                     None \<Rightarrow> False
                   | Some allowed \<Rightarrow> allowed)))"

datatype 'a promise = Promise "error + 'a"

definition ToBoolean :: "'a promise \<Rightarrow> bool" where
  \<comment> \<open>a promise is an object, and every object is truthy, whatever it settles to\<close>
  "ToBoolean p = True"

definition links_predicate :: "lib \<Rightarrow> world \<Rightarrow> string list option \<Rightarrow> string \<Rightarrow> bool promise" where
  \<comment> \<open>\<open>async (url) => { return await isUrlAllowedInRobots(url) &&
      isUrlMatchingSomeKeyword(url, keywords) }\<close>: an \<open>async\<close> function returns a promise.
      Nobody awaits it, so its robots.txt request is not in the log\<close>
  "links_predicate l w keywords u =
     Promise (Inr (isUrlAllowedInRobots l w u \<and> isUrlMatchingSomeKeyword u keywords))"

fun map_throwing :: "('a \<Rightarrow> error + 'b) \<Rightarrow> 'a list \<Rightarrow> error + 'b list" where
  \<comment> \<open>\<open>xs.map(f)\<close> for a callback that may throw: the first throw ends the map\<close>
  "map_throwing f [] = Inr []"
| "map_throwing f (x # xs) =
     (case f x of
        Inl e \<Rightarrow> Inl e
      | Inr y \<Rightarrow> (case map_throwing f xs of Inl e \<Rightarrow> Inl e | Inr ys \<Rightarrow> Inr (y # ys)))"

definition same_site_hrefs :: "string \<Rightarrow> string option list \<Rightarrow> string list" where
  \<comment> \<open>\<open>urls.filter((url) => url && isUrlWithinBaseWebsite(url, baseUrl))\<close>: a \<open>null\<close> and an
      empty \<open>href\<close> are falsy\<close>
  "same_site_hrefs baseUrl urls =
     concat (map (\<lambda>href. case href of
                           None \<Rightarrow> []
                         | Some u \<Rightarrow> if u \<noteq> [] \<and> isUrlWithinBaseWebsite u baseUrl then [u] else [])
                 urls)"

definition absolute_link :: "lib \<Rightarrow> string \<Rightarrow> string \<Rightarrow> string \<Rightarrow> error + string" where
  \<comment> \<open>\<open>if (url.startsWith(baseUrl)) { return url }
      const u = new URL(url, relativeUrlBase); return `${u.origin}${u.pathname}`\<close>\<close>
  "absolute_link l baseUrl relativeUrlBase u =
     (if startsWith u baseUrl then Inr u
      else (case new_URL l u (Some relativeUrlBase) of
              None \<Rightarrow> Inl InvalidURL
            | Some parsed \<Rightarrow> Inr (origin parsed @ pathname parsed)))"

definition getLinksToFollow ::
  "lib \<Rightarrow> world \<Rightarrow> page \<Rightarrow> string \<Rightarrow> string list option \<Rightarrow> string list prog" where
  "getLinksToFollow l w pg baseUrl keywords =
     await (perform (EvaluateHrefs pg) (evaluate_hrefs w pg))
       (\<lambda>urls.
          await (perform (EvaluateLocationHref pg) (evaluate_location_href w pg))
            (\<lambda>location_href.
               (let currentPageUrlParts = split_on CHR ''/'' location_href;
                    relativeUrlBase =
                      join_with CHR ''/''
                        (slice 0 (length currentPageUrlParts) currentPageUrlParts)
                in case map_throwing (absolute_link l baseUrl relativeUrlBase)
                          (same_site_hrefs baseUrl urls) of
                     Inl e \<Rightarrow> throw e
                   | Inr links \<Rightarrow>
                       return (filter (\<lambda>u. ToBoolean (links_predicate l w keywords u)) links))))"

definition Set_of :: "'a list \<Rightarrow> 'a list" where
  \<comment> \<open>\<open>[...new Set(xs)]\<close>: each value once, in the order of first insertion\<close>
  "Set_of xs = fold (\<lambda>x acc. if x \<in> set acc then acc else acc @ [x]) xs []"

definition discoveredPaths :: "lib \<Rightarrow> string list \<Rightarrow> string list" where
  \<comment> \<open>\<open>flatMap((u) => { try { return [new URL(u).pathname] } catch (e) { return [] } })\<close>\<close>
  "discoveredPaths l discoveredUrls =
     concat (map (\<lambda>u. case new_URL l u None of None \<Rightarrow> [] | Some parsed \<Rightarrow> [pathname parsed])
                 discoveredUrls)"

definition extract_try ::
  "lib \<Rightarrow> world \<Rightarrow> browser \<Rightarrow> string \<Rightarrow> CrawlPageInput \<Rightarrow> CrawlDestination \<Rightarrow> string list prog"
  where
  \<comment> \<open>the \<open>try\<close> block of \<open>extractPageContentAndUrls\<close>\<close>
  "extract_try l w b u input destination =
     await (perform (NewPage b) (newPage_result w b))
       (\<lambda>pg.
          await (perform (Goto pg u) (goto_result w pg u))
            (\<lambda>_.
               await (extractContent l w pg)
                 (\<lambda>content.
                    await (writePageToS3 l w u content destination)
                      (\<lambda>_.
                         await (getLinksToFollow l w pg (in_baseUrl input) (in_pathKeywords input))
                           (\<lambda>links. return (discoveredPaths l (Set_of links)))))))"

definition extractPageContentAndUrls ::
  "lib \<Rightarrow> world \<Rightarrow> browser \<Rightarrow> CrawlPageInput \<Rightarrow> CrawlDestination \<Rightarrow> string list prog" where
  \<comment> \<open>\<open>const url = new URL(input.path, input.baseUrl).href\<close> stands before the \<open>try\<close>;
      the \<open>catch\<close> returns \<open>[]\<close>\<close>
  "extractPageContentAndUrls l w b input destination s =
     (case new_URL l (in_path input) (Some (in_baseUrl input)) of
        None \<Rightarrow> (Inl InvalidURL, s)
      | Some parsed \<Rightarrow>
          (case extract_try l w b (href parsed) input destination s of
             (Inl e, s') \<Rightarrow> (Inr [], s')
           | (Inr discovered, s') \<Rightarrow> (Inr discovered, s')))"

section \<open>The step (steps/3_crawlPageAndQueueUrls.ts)\<close>

definition crawl_try ::
  "lib \<Rightarrow> world \<Rightarrow> string \<Rightarrow> CrawlContext \<Rightarrow> state \<Rightarrow> ((error + unit) \<times> browser option) \<times> state"
  where
  \<comment> \<open>the \<open>try\<close> block of \<open>crawlPageAndQueueUrls\<close>; beside its completion it gives the
      value of the variable \<open>browser\<close> when it ends (\<open>None\<close> is \<open>undefined\<close>)\<close>
  "crawl_try l w p crawlContext s =
     (case perform (MarkPathAsVisited (contextTableName crawlContext) p)
             (markPathAsVisited_result w (contextTableName crawlContext) p) s of
        (Inl e, s1) \<Rightarrow> ((Inl e, None), s1)
      | (Inr _, s1) \<Rightarrow>
          (case perform ExecutablePath (executablePath_result w) s1 of
             (Inl e, s2) \<Rightarrow> ((Inl e, None), s2)
           | (Inr executablePath, s2) \<Rightarrow>
               (case perform (Launch executablePath) (launch_result w executablePath) s2 of
                  (Inl e, s3) \<Rightarrow> ((Inl e, None), s3)
                | (Inr b, s3) \<Rightarrow>
                    (case extractPageContentAndUrls l w b
                            \<lparr>in_baseUrl = ctx_baseUrl crawlContext, in_path = p,
                             in_pathKeywords = ctx_pathKeywords crawlContext\<rparr>
                            \<lparr>s3KeyPrefix = crawlName crawlContext\<rparr> s3 of
                       (Inl e, s4) \<Rightarrow> ((Inl e, Some b), s4)
                     | (Inr urlPaths, s4) \<Rightarrow>
                         (case perform (QueuePaths (contextTableName crawlContext) urlPaths)
                                 (queuePaths_result w (contextTableName crawlContext) urlPaths)
                                 s4 of
                            (r, s5) \<Rightarrow> ((r, Some b), s5))))))"

definition crawlPageAndQueueUrls :: "lib \<Rightarrow> world \<Rightarrow> string \<Rightarrow> CrawlContext \<Rightarrow> unit prog" where
  \<comment> \<open>\<open>try { ... } catch (e) { console.error(...) } finally { browser && await browser.close() }
      return {}\<close>: the \<open>catch\<close> only logs; an error of \<open>close\<close> leaves the function; the
      empty object is \<open>()\<close>\<close>
  "crawlPageAndQueueUrls l w p crawlContext s =
     (case crawl_try l w p crawlContext s of
        ((r, browser), s') \<Rightarrow>
          (case browser of
             None \<Rightarrow> (Inr (), s')
           | Some b \<Rightarrow>
               (case perform (Close b) (close_result w b) s' of
                  (Inl e, s'') \<Rightarrow> (Inl e, s'')
                | (Inr _, s'') \<Rightarrow> (Inr (), s''))))"

definition step_log :: "lib \<Rightarrow> world \<Rightarrow> string \<Rightarrow> CrawlContext \<Rightarrow> state \<Rightarrow> (call \<times> error option) list"
  where
  \<comment> \<open>the calls one run of the step adds to the log\<close>
  "step_log l w p crawlContext s = calls_of (crawlPageAndQueueUrls l w p crawlContext) s"

section \<open>The same-site test and the keyword match in the specification's words\<close>

definition scheme_char :: "char \<Rightarrow> bool" where
  "scheme_char c =
     (let n = (of_char c :: nat)
      in (65 \<le> n \<and> n \<le> 90) \<or> (97 \<le> n \<and> n \<le> 122) \<or> (48 \<le> n \<and> n \<le> 57)
         \<or> c = CHR ''+'' \<or> c = CHR ''-'' \<or> c = CHR ''.'')"

definition alpha_char :: "char \<Rightarrow> bool" where
  "alpha_char c =
     (let n = (of_char c :: nat) in (65 \<le> n \<and> n \<le> 90) \<or> (97 \<le> n \<and> n \<le> 122))"

definition has_scheme :: "string \<Rightarrow> bool" where
  \<comment> \<open>a URL has a scheme when it starts with a letter followed by letters, digits,
      \<open>+\<close>, \<open>-\<close> or \<open>.\<close> up to a colon (RFC 3986); without one it is relative\<close>
  "has_scheme url =
     (let name = takeWhile (\<lambda>c. c \<noteq> CHR '':'') url
      in length name < length url \<and> name \<noteq> [] \<and> alpha_char (hd name)
         \<and> list_all scheme_char name)"

definition same_site_spec :: "string \<Rightarrow> string \<Rightarrow> bool" where
  \<comment> \<open>the specification's same-site test: no scheme, or a literal prefix match with the
      base URL (the candidate begins with the base URL, as the specification's examples
      read it)\<close>
  "same_site_spec url baseUrl = (\<not> has_scheme url \<or> prefix baseUrl url)"

definition keyword_match_spec :: "string \<Rightarrow> string list option \<Rightarrow> bool" where
  \<comment> \<open>the specification's keyword match: some keyword is a case-insensitive substring
      of the URL, or the list is absent or empty\<close>
  "keyword_match_spec url keywords =
     (case keywords of
        None \<Rightarrow> True
      | Some ks \<Rightarrow>
          ks = [] \<or> list_ex (\<lambda>keyword. sublist (toLowerCase keyword) (toLowerCase url)) ks)"

section \<open>Kinds of calls and properties of logs\<close>

definition fails_the_page :: "call \<Rightarrow> bool" where
  \<comment> \<open>the calls whose failure fails the page: opening it, navigating to it, and the
      evaluations of the title and of the body in \<open>extractContent\<close>. The HEAD request of
      \<open>extractContent\<close> is not among them: \<open>getLastModified\<close> absorbs its failure\<close>
  "fails_the_page c =
     (case c of NewPage _ \<Rightarrow> True | Goto _ _ \<Rightarrow> True | EvaluateTitle _ \<Rightarrow> True
      | EvaluateInnerHTML _ \<Rightarrow> True | _ \<Rightarrow> False)"

definition store_operation :: "call \<Rightarrow> bool" where
  \<comment> \<open>the frontier store operations and the blob-store write\<close>
  "store_operation c =
     (case c of MarkPathAsVisited _ _ \<Rightarrow> True | QueuePaths _ _ \<Rightarrow> True | PutObject _ _ _ \<Rightarrow> True
      | _ \<Rightarrow> False)"

definition step_only :: "call \<Rightarrow> bool" where
  \<comment> \<open>the calls \<open>crawlPageAndQueueUrls\<close> makes itself\<close>
  "step_only c =
     (case c of MarkPathAsVisited _ _ \<Rightarrow> True | ExecutablePath \<Rightarrow> True | Launch _ \<Rightarrow> True
      | QueuePaths _ _ \<Rightarrow> True | Close _ \<Rightarrow> True | _ \<Rightarrow> False)"

definition grows :: "'a prog \<Rightarrow> bool" where
  \<comment> \<open>\<open>m\<close> only appends to the log\<close>
  "grows m = (\<forall>s. log (snd (m s)) = log s @ calls_of m s)"

definition propagates :: "'a prog \<Rightarrow> bool" where
  \<comment> \<open>\<open>m\<close> fails whenever one of its calls failed, the HEAD request apart\<close>
  "propagates m =
     (\<forall>s c e. (c, Some e) \<in> set (calls_of m s) \<longrightarrow> (\<forall>u. c \<noteq> FetchHead u)
        \<longrightarrow> (\<exists>e'. fst (m s) = Inl e'))"

definition calls_satisfy :: "(call \<Rightarrow> bool) \<Rightarrow> 'a prog \<Rightarrow> bool" where
  "calls_satisfy P m = (\<forall>s c out. (c, out) \<in> set (calls_of m s) \<longrightarrow> P c)"


definition close_after :: "world \<Rightarrow> browser \<Rightarrow> unit prog" where
  \<comment> \<open>the \<open>finally\<close> block and the \<open>return {}\<close> of \<open>crawlPageAndQueueUrls\<close> once a browser
      is launched\<close>
  "close_after w b s =
     (case close_result w b of
        Inl e \<Rightarrow> (Inl e, s\<lparr>log := log s @ [(Close b, Some e)]\<rparr>)
      | Inr _ \<Rightarrow> (Inr (), s\<lparr>log := log s @ [(Close b, None)]\<rparr>))"

section \<open>An example site\<close>

text \<open>
  The site \<open>https://ex.com\<close>: its home page links to \<open>/about\<close>, to a blog post, to another
  site and has one anchor without \<open>href\<close>; its robots.txt disallows \<open>/about\<close>; the HEAD
  request answers with a Last-Modified header. The crawl looks for the keyword \<open>blog\<close>.
\<close>

definition example_new_URL :: "string \<Rightarrow> string option \<Rightarrow> URL option" where
  \<comment> \<open>\<open>new URL\<close> on the URLs of the example site\<close>
  "example_new_URL input base =
     (if input = ''/'' \<and> base = Some ''https://ex.com''
      then Some \<lparr>href = ''https://ex.com/'', origin = ''https://ex.com'', pathname = ''/''\<rparr>
      else if input = ''/about'' \<and> base = Some ''https://ex.com/''
      then Some \<lparr>href = ''https://ex.com/about'', origin = ''https://ex.com'',
                 pathname = ''/about''\<rparr>
      else if input = ''https://ex.com/about'' \<and> base = None
      then Some \<lparr>href = ''https://ex.com/about'', origin = ''https://ex.com'',
                 pathname = ''/about''\<rparr>
      else if input = ''https://ex.com/blog/post'' \<and> base = None
      then Some \<lparr>href = ''https://ex.com/blog/post'', origin = ''https://ex.com'',
                 pathname = ''/blog/post''\<rparr>
      else if input = ''mailto:team@ex.com'' \<and> base = Some ''https://ex.com/''
      then Some \<lparr>href = ''mailto:team@ex.com'', origin = ''null'', pathname = ''team@ex.com''\<rparr>
      else None)"

definition example_lib :: lib where
  "example_lib =
     \<lparr>S3_DATA_BUCKET = ''data-bucket'',
      new_URL = example_new_URL,
      JSON_stringify = (\<lambda>content. md_title (metadata content) @ ''|''
                           @ md_last_modified (metadata content) @ ''|''
                           @ md_url (metadata content) @ ''|'' @ html content),
      nhm_translate = (\<lambda>htmlContent. htmlContent),
      robots_isAllowed = (\<lambda>robotsURL robotsTxt u. Some (u \<noteq> ''https://ex.com/about''))\<rparr>"

definition example_world :: world where
  "example_world =
     \<lparr>markPathAsVisited_result = (\<lambda>table p. Inr ()),
      queuePaths_result = (\<lambda>table paths. Inr ()),
      executablePath_result = Inr ''/opt/bin/chromium'',
      launch_result = (\<lambda>executablePath. Inr 2),
      close_result = (\<lambda>b. Inr ()),
      newPage_result = (\<lambda>b. Inr 3),
      goto_result = (\<lambda>pg u. Inr ()),
      page_url = (\<lambda>pg. ''https://ex.com/''),
      evaluate_title = (\<lambda>pg. Inr ''Home''),
      evaluate_innerHTML = (\<lambda>pg. Inr ''<p>Welcome</p>''),
      evaluate_hrefs = (\<lambda>pg. Inr [Some ''/about'', Some ''https://ex.com/blog/post'',
                                    Some ''https://other.com/x'', None]),
      evaluate_location_href = (\<lambda>pg. Inr ''https://ex.com/''),
      fetch_head = (\<lambda>u. Inr \<lparr>ok = True,
                               header_Last_Modified = Some ''Wed, 21 Oct 2015 07:28:00 GMT''\<rparr>),
      fetch_text = (\<lambda>u. Inr ''Disallow: /about''),
      putObject_result = (\<lambda>bucket key body. Inr ())\<rparr>"

definition example_context :: CrawlContext where
  "example_context =
     \<lparr>contextTableName = ''crawl-context'', ctx_baseUrl = ''https://ex.com'',
      ctx_pathKeywords = Some [''blog''], crawlName = ''docs''\<rparr>"

definition empty_state :: state where
  "empty_state = \<lparr>log = [], objects = (\<lambda>k. None)\<rparr>"

text \<open>The same site when one of the external calls fails.\<close>

definition world_mark_fails :: world where
  "world_mark_fails =
     example_world\<lparr>markPathAsVisited_result :=
       (\<lambda>table p. Inl (Thrown ''ProvisionedThroughputExceededException''))\<rparr>"

definition world_queue_fails :: world where
  "world_queue_fails =
     example_world\<lparr>queuePaths_result :=
       (\<lambda>table paths. Inl (Thrown ''ProvisionedThroughputExceededException''))\<rparr>"

definition world_put_fails :: world where
  "world_put_fails =
     example_world\<lparr>putObject_result := (\<lambda>bucket key body. Inl (Thrown ''AccessDenied''))\<rparr>"

definition world_goto_fails :: world where
  "world_goto_fails =
     example_world\<lparr>goto_result := (\<lambda>pg u. Inl (Thrown ''net::ERR_CONNECTION_REFUSED''))\<rparr>"

definition world_head_fails :: world where
  "world_head_fails = example_world\<lparr>fetch_head := (\<lambda>u. Inl (Thrown ''ECONNRESET''))\<rparr>"

definition world_mailto_link :: world where
  \<comment> \<open>the home page links to a mail address and to the blog post\<close>
  "world_mailto_link =
     example_world\<lparr>evaluate_hrefs :=
       (\<lambda>pg. Inr [Some ''mailto:team@ex.com'', Some ''https://ex.com/blog/post''])\<rparr>"

definition world_goto_and_close_fail :: world where
  "world_goto_and_close_fail =
     world_goto_fails\<lparr>close_result := (\<lambda>b. Inl (Thrown ''Protocol error: Target closed''))\<rparr>"

definition example_input :: CrawlPageInput where
  "example_input =
     \<lparr>in_baseUrl = ''https://ex.com'', in_path = ''/'', in_pathKeywords = Some [''blog'']\<rparr>"

definition input_without_scheme :: CrawlPageInput where
  \<comment> \<open>a base URL that \<open>new URL\<close> rejects\<close>
  "input_without_scheme =
     \<lparr>in_baseUrl = ''ex.com'', in_path = ''/'', in_pathKeywords = None\<rparr>"

definition example_destination :: CrawlDestination where
  "example_destination = \<lparr>s3KeyPrefix = ''docs''\<rparr>"

definition example_content :: PageContent where
  "example_content =
     \<lparr>metadata = \<lparr>md_title = ''Home'', md_last_modified = [], md_url = ''https://ex.com/''\<rparr>,
      html = ''<p>Welcome</p>''\<rparr>"

definition destination_with_slash :: CrawlDestination where
  \<comment> \<open>a key prefix written the way blob-store prefixes often are\<close>
  "destination_with_slash = \<lparr>s3KeyPrefix = ''docs/''\<rparr>"

section \<open>Properties of the string functions\<close>

lemma str_includes_sublist: "str_includes s k \<longleftrightarrow> sublist k s"
  by (induction s) (simp_all add: sublist_Cons_right)

lemma toLowerCase_sublist:
  "sublist k url \<Longrightarrow> sublist (toLowerCase k) (toLowerCase url)"
  unfolding toLowerCase_def by (rule map_mono_sublist)

subsection \<open>\<open>path.join\<close> and \<open>encodeURIComponent\<close>\<close>

lemma split_on_not_Nil: "split_on sep s \<noteq> []"
  by (induction s) (auto split: list.splits)

lemma split_on_no_sep: "sep \<notin> set s \<Longrightarrow> split_on sep s = [s]"
  by (induction s) auto

lemma split_on_append: "split_on sep (a @ sep # b) = split_on sep a @ split_on sep b"
proof (induction a)
  case Nil
  show ?case by simp
next
  case (Cons c cs)
  obtain p ps where "split_on sep cs = p # ps"
    using split_on_not_Nil[of sep cs] by (cases "split_on sep cs") auto
  with Cons show ?case by simp
qed

lemma join_with_split_on: "join_with sep (split_on sep s) = s"
proof (induction s)
  case Nil
  show ?case by simp
next
  case (Cons c cs)
  obtain p ps where ps: "split_on sep cs = p # ps"
    using split_on_not_Nil[of sep cs] by (cases "split_on sep cs") auto
  with Cons show ?case by (cases ps) auto
qed

lemma slice_all: "slice 0 (length xs) xs = xs"
  by (simp add: slice_def)

text \<open>The base that \<open>getLinksToFollow\<close> resolves relative links against is the location of the page.\<close>

lemma relativeUrlBase_is_location:
  "join_with CHR ''/'' (slice 0 (length (split_on CHR ''/'' location_href))
      (split_on CHR ''/'' location_href)) = location_href"
  by (simp add: slice_all join_with_split_on)

lemma join_with_snoc: "xs \<noteq> [] \<Longrightarrow> join_with sep (xs @ [y]) = join_with sep xs @ sep # y"
  by (induction sep xs rule: join_with.induct) auto

lemma normalizeString_plain:
  "\<forall>seg\<in>set segs. plain_segment seg \<Longrightarrow> normalizeString a res segs = res @ segs"
  by (induction segs arbitrary: res) (auto simp: plain_segment_def)

lemma hex_digit_not_slash: "hex_digit n \<noteq> CHR ''/''"
proof -
  have "hex_digit n \<in> set ''0123456789ABCDEF''"
    unfolding hex_digit_def by (rule nth_mem) simp
  then show ?thesis by auto
qed

lemma unreserved_not_slash: "uri_unreserved c \<Longrightarrow> c \<noteq> CHR ''/''"
  by (auto simp: uri_unreserved_def)

lemma percent_byte_no_slash: "CHR ''/'' \<notin> set (percent_byte n)"
  using hex_digit_not_slash[of "n div 16"] hex_digit_not_slash[of n]
  by (auto simp: percent_byte_def)

lemma encode_unit_no_slash: "CHR ''/'' \<notin> set (encode_unit c)"
proof (cases "uri_unreserved c")
  case True
  with unreserved_not_slash[OF True] show ?thesis
    by (auto simp: encode_unit_def)
next
  case False
  then show ?thesis
    by (simp add: encode_unit_def Let_def percent_byte_no_slash)
qed

lemma encodeURIComponent_no_slash: "CHR ''/'' \<notin> set (encodeURIComponent u)"
  by (simp add: encodeURIComponent_def encode_unit_no_slash)

lemma path_join_plain:
  assumes segs: "\<forall>seg\<in>set (split_on CHR ''/'' dir). plain_segment seg"
    and name: "CHR ''/'' \<notin> set name" "plain_segment name"
  shows "path_join [dir, name] = dir @ ''/'' @ name"
proof -
  let ?p = "dir @ CHR ''/'' # name"
  from name have fne: "name \<noteq> []"
    by (simp add: plain_segment_def)
  have pne: "dir \<noteq> []"
  proof
    assume "dir = []"
    then have "[] \<in> set (split_on CHR ''/'' dir)" by simp
    with segs show False unfolding plain_segment_def by blast
  qed
  have hd: "hd dir \<noteq> CHR ''/''"
  proof
    assume "hd dir = CHR ''/''"
    with pne obtain cs where "dir = CHR ''/'' # cs" by (cases dir) auto
    then have "[] \<in> set (split_on CHR ''/'' dir)" by simp
    with segs show False unfolding plain_segment_def by blast
  qed
  have "last ?p = last name"
    using fne by simp
  moreover have "last name \<in> set name"
    using fne by simp
  ultimately have last: "last ?p \<noteq> CHR ''/''"
    using name(1) by auto
  have split: "split_on CHR ''/'' ?p = split_on CHR ''/'' dir @ [name]"
    by (simp add: split_on_append split_on_no_sep[OF name(1)])
  have "\<forall>seg\<in>set (split_on CHR ''/'' dir @ [name]). plain_segment seg"
    using segs name(2) by simp
  then have norm: "normalizeString True [] (split_on CHR ''/'' dir @ [name])
                = split_on CHR ''/'' dir @ [name]"
    by (simp only: normalizeString_plain append_Nil)
  have joined: "join_with CHR ''/'' (split_on CHR ''/'' dir @ [name]) = ?p"
    by (simp add: join_with_snoc split_on_not_Nil join_with_split_on)
  have nz: "?p \<noteq> []" "hd ?p = hd dir"
    using pne by simp_all
  have "path_normalize ?p = ?p"
    unfolding path_normalize_def Let_def split nz(2)
    by (simp only: nz(1) hd last norm joined if_False not_False_eq_True simp_thms
        append_Nil append_Nil2)
  moreover have "filter (\<lambda>arg. arg \<noteq> []) [dir, name] = [dir, name]"
    using pne fne by simp
  ultimately show ?thesis
    unfolding path_join_def Let_def by simp
qed

lemma document_name_plain:
  "CHR ''/'' \<notin> set (encodeURIComponent u @ ''.html'')"
  "plain_segment (encodeURIComponent u @ ''.html'')"
proof -
  show "CHR ''/'' \<notin> set (encodeURIComponent u @ ''.html'')"
    using encodeURIComponent_no_slash[of u] by simp
  have "encodeURIComponent u @ ''.html'' \<noteq> t" if "length t < 5" for t
    using that by auto
  from this[of "[]"] this[of "''.''"] this[of "''..''"]
  show "plain_segment (encodeURIComponent u @ ''.html'')"
    by (simp add: plain_segment_def)
qed

lemma encoded_example_url: "encodeURIComponent ''https://ex.com/'' = ''https%3A%2F%2Fex.com%2F''"
  by code_simp

section \<open>The log of a run\<close>

lemma getLastModified_eq:
  "getLastModified w u s = (Inr [], s\<lparr>log := log s @ [(FetchHead u, failure (fetch_head w u))]\<rparr>)"
  by (simp add: getLastModified_def finally_return_def await_def perform_def return_def
      split: sum.splits)

lemma extractContent_state:
  "snd (extractContent l w pg s) =
     s\<lparr>log := log s @ [(EvaluateTitle pg, failure (evaluate_title w pg)),
                        (FetchHead (page_url w pg), failure (fetch_head w (page_url w pg))),
                        (EvaluateInnerHTML pg, failure (evaluate_innerHTML w pg))]\<rparr>"
  by (simp add: extractContent_def getLastModified_eq perform_def split: sum.splits)

lemma extractContent_result:
  "fst (extractContent l w pg s) =
     (case evaluate_title w pg of
        Inl e \<Rightarrow> Inl e
      | Inr t \<Rightarrow>
          (case evaluate_innerHTML w pg of
             Inl e \<Rightarrow> Inl e
           | Inr h \<Rightarrow> Inr \<lparr>metadata = \<lparr>md_title = t, md_last_modified = [], md_url = page_url w pg\<rparr>,
                           html = nhm_translate l h\<rparr>))"
  by (simp add: extractContent_def getLastModified_eq perform_def split: sum.splits)

lemma putObject_eq:
  "putObject l w key body s =
     (case putObject_result w (S3_DATA_BUCKET l) key body of
        Inl e \<Rightarrow> (Inl e, s\<lparr>log := log s @ [(PutObject (S3_DATA_BUCKET l) key body, Some e)]\<rparr>)
      | Inr u \<Rightarrow> (Inr (), s\<lparr>log := log s @ [(PutObject (S3_DATA_BUCKET l) key body, None)],
                             objects := (objects s)((S3_DATA_BUCKET l, key) \<mapsto> body)\<rparr>))"
  by (simp add: putObject_def perform_def failure_def split: sum.splits)

lemma growsI: "(\<And>s. \<exists>evs. log (snd (m s)) = log s @ evs) \<Longrightarrow> grows m"
  unfolding grows_def calls_of_def
  by (metis append_eq_conv_conj)

lemma grows_perform: "grows (perform c r)"
  by (rule growsI) (simp add: perform_def)

lemma calls_of_perform: "calls_of (perform c r) s = [(c, failure r)]"
  by (simp add: calls_of_def perform_def)

lemma grows_return: "grows (return x)"
  by (rule growsI) (simp add: return_def)

lemma grows_throw: "grows (throw x)"
  by (rule growsI) (simp add: throw_def)

lemma calls_of_await:
  assumes "grows m" "\<And>x. grows (f x)"
  shows "calls_of (await m f) s =
           calls_of m s @ (case fst (m s) of Inl e \<Rightarrow> [] | Inr x \<Rightarrow> calls_of (f x) (snd (m s)))"
proof (cases "m s")
  case (Pair r s')
  have s': "log s' = log s @ calls_of m s"
    using assms(1) Pair unfolding grows_def by (metis snd_conv)
  show ?thesis
  proof (cases r)
    case (Inl e)
    with Pair show ?thesis by (simp add: calls_of_def await_def)
  next
    case (Inr x)
    have s'': "log (snd (f x s')) = log s' @ calls_of (f x) s'"
      using assms(2)[of x] unfolding grows_def by blast
    have "calls_of (await m f) s = drop (length (log s)) (log (snd (f x s')))"
      using Pair Inr by (simp add: calls_of_def await_def)
    also have "\<dots> = calls_of m s @ calls_of (f x) s'"
      by (simp add: s' s'')
    finally show ?thesis using Pair Inr by simp
  qed
qed

lemma grows_await:
  assumes "grows m" "\<And>x. grows (f x)"
  shows "grows (await m f)"
proof (rule growsI)
  fix s
  obtain r s' where Pair: "m s = (r, s')" by (cases "m s")
  have s': "log s' = log s @ calls_of m s"
    using assms(1) Pair unfolding grows_def by (metis snd_conv)
  show "\<exists>evs. log (snd (await m f s)) = log s @ evs"
  proof (cases r)
    case (Inl e)
    with Pair s' show ?thesis by (simp add: await_def)
  next
    case (Inr x)
    have "log (snd (f x s')) = log s' @ calls_of (f x) s'"
      using assms(2)[of x] unfolding grows_def by blast
    with Pair Inr s' show ?thesis by (simp add: await_def)
  qed
qed

lemma propagates_await:
  assumes "grows m" "\<And>x. grows (f x)" "propagates m" "\<And>x. propagates (f x)"
  shows "propagates (await m f)"
  unfolding propagates_def
proof (intro allI impI)
  fix s c e
  assume in_calls: "(c, Some e) \<in> set (calls_of (await m f) s)" and nh: "\<forall>u. c \<noteq> FetchHead u"
  obtain r s' where Pair: "m s = (r, s')" by (cases "m s")
  show "\<exists>e'. fst (await m f s) = Inl e'"
  proof (cases r)
    case (Inl e0)
    with Pair show ?thesis by (simp add: await_def)
  next
    case (Inr x)
    from in_calls have "(c, Some e) \<in> set (calls_of m s) \<or> (c, Some e) \<in> set (calls_of (f x) s')"
      using Pair Inr by (simp add: calls_of_await[OF assms(1,2)])
    then show ?thesis
    proof
      assume "(c, Some e) \<in> set (calls_of m s)"
      with assms(3) nh have "\<exists>e'. fst (m s) = Inl e'" unfolding propagates_def by blast
      with Pair Inr show ?thesis by simp
    next
      assume "(c, Some e) \<in> set (calls_of (f x) s')"
      with assms(4)[of x] nh have "\<exists>e'. fst (f x s') = Inl e'" unfolding propagates_def by blast
      with Pair Inr show ?thesis by (simp add: await_def)
    qed
  qed
qed

lemma propagates_perform: "propagates (perform c r)"
  by (auto simp: propagates_def calls_of_perform perform_def failure_def split: sum.splits)

lemma propagates_return: "propagates (return x)"
  by (simp add: propagates_def calls_of_def return_def)

lemma propagates_throw: "propagates (throw x)"
  by (simp add: propagates_def calls_of_def throw_def)

lemma grows_extractContent: "grows (extractContent l w pg)"
  by (rule growsI) (simp add: extractContent_state)

lemma propagates_extractContent: "propagates (extractContent l w pg)"
  by (auto simp: propagates_def calls_of_def extractContent_state extractContent_result failure_def
      split: sum.splits)

lemma grows_writePageToS3: "grows (writePageToS3 l w u content d)"
  by (rule growsI) (simp add: writePageToS3_def putObject_eq return_def Let_def split: sum.splits)

lemma propagates_writePageToS3: "propagates (writePageToS3 l w u content d)"
  by (auto simp: propagates_def calls_of_def writePageToS3_def putObject_eq return_def Let_def
      split: sum.splits)

lemma grows_getLinksToFollow: "grows (getLinksToFollow l w pg b k)"
  unfolding getLinksToFollow_def Let_def
  by (intro grows_await grows_perform) (simp add: grows_return grows_throw split: sum.splits)

lemma propagates_getLinksToFollow: "propagates (getLinksToFollow l w pg b k)"
  unfolding getLinksToFollow_def Let_def
  by (intro propagates_await grows_await grows_perform propagates_perform)
     (simp_all add: grows_return grows_throw propagates_return propagates_throw split: sum.splits)

lemma grows_extract_try: "grows (extract_try l w b u input d)"
  unfolding extract_try_def
  by (intro grows_await grows_perform grows_extractContent grows_writePageToS3
      grows_getLinksToFollow grows_return)

lemma propagates_extract_try: "propagates (extract_try l w b u input d)"
  unfolding extract_try_def
  by (intro propagates_await grows_await grows_perform propagates_perform
      grows_extractContent propagates_extractContent grows_writePageToS3 propagates_writePageToS3
      grows_getLinksToFollow propagates_getLinksToFollow grows_return propagates_return)

lemma grows_ext: "grows (extractPageContentAndUrls l w b input d)"
proof (rule growsI)
  fix s
  have "log (snd (extract_try l w b u input d s)) = log s @ calls_of (extract_try l w b u input d) s" for u
    using grows_extract_try unfolding grows_def by blast
  then show "\<exists>evs. log (snd (extractPageContentAndUrls l w b input d s)) = log s @ evs"
    by (auto simp: extractPageContentAndUrls_def split: option.splits sum.splits prod.splits)
      (metis snd_conv)+
qed

lemma ext_log:
  "extractPageContentAndUrls l w b input d s = (r, s') \<Longrightarrow>
     log s' = log s @ calls_of (extractPageContentAndUrls l w b input d) s"
  using grows_ext unfolding grows_def by (metis snd_conv)

lemma crawl_mark_fails:
  "markPathAsVisited_result w (contextTableName c) p = Inl e \<Longrightarrow>
   crawlPageAndQueueUrls l w p c s =
     (Inr (), s\<lparr>log := log s @ [(MarkPathAsVisited (contextTableName c) p, Some e)]\<rparr>)"
  by (simp add: crawlPageAndQueueUrls_def crawl_try_def perform_def failure_def)

lemma crawl_exe_fails:
  "markPathAsVisited_result w (contextTableName c) p = Inr u \<Longrightarrow>
   executablePath_result w = Inl e \<Longrightarrow>
   crawlPageAndQueueUrls l w p c s =
     (Inr (), s\<lparr>log := log s @ [(MarkPathAsVisited (contextTableName c) p, None),
                                  (ExecutablePath, Some e)]\<rparr>)"
  by (simp add: crawlPageAndQueueUrls_def crawl_try_def perform_def failure_def)

lemma crawl_launch_fails:
  "markPathAsVisited_result w (contextTableName c) p = Inr u \<Longrightarrow>
   executablePath_result w = Inr x \<Longrightarrow> launch_result w x = Inl e \<Longrightarrow>
   crawlPageAndQueueUrls l w p c s =
     (Inr (), s\<lparr>log := log s @ [(MarkPathAsVisited (contextTableName c) p, None),
                                  (ExecutablePath, None), (Launch x, Some e)]\<rparr>)"
  by (simp add: crawlPageAndQueueUrls_def crawl_try_def perform_def failure_def)

lemma crawl_launched:
  assumes "markPathAsVisited_result w (contextTableName c) p = Inr u"
    and "executablePath_result w = Inr x" and "launch_result w x = Inr b"
    and "extractPageContentAndUrls l w b
           \<lparr>in_baseUrl = ctx_baseUrl c, in_path = p, in_pathKeywords = ctx_pathKeywords c\<rparr>
           \<lparr>s3KeyPrefix = crawlName c\<rparr>
           (s\<lparr>log := log s @ [(MarkPathAsVisited (contextTableName c) p, None),
                               (ExecutablePath, None), (Launch x, None)]\<rparr>) = (r, s')"
  shows "crawlPageAndQueueUrls l w p c s =
     (case r of
        Inl e \<Rightarrow> close_after w b s'
      | Inr urlPaths \<Rightarrow>
          close_after w b
            (s'\<lparr>log := log s' @ [(QueuePaths (contextTableName c) urlPaths,
                                   failure (queuePaths_result w (contextTableName c) urlPaths))]\<rparr>))"
  using assms
  by (simp add: crawlPageAndQueueUrls_def crawl_try_def perform_def failure_def close_after_def
      split: sum.splits)

lemma calls_satisfy_await:
  assumes "grows m" "\<And>x. grows (f x)" "calls_satisfy P m" "\<And>x. calls_satisfy P (f x)"
  shows "calls_satisfy P (await m f)"
  unfolding calls_satisfy_def
proof (intro allI impI)
  fix s c out
  assume "(c, out) \<in> set (calls_of (await m f) s)"
  then consider "(c, out) \<in> set (calls_of m s)"
    | x where "(c, out) \<in> set (calls_of (f x) (snd (m s)))"
    unfolding calls_of_await[OF assms(1,2)] by (auto split: sum.splits)
  then show "P c"
  proof cases
    case 1
    with assms(3) show ?thesis unfolding calls_satisfy_def by blast
  next
    case 2
    with assms(4)[of x] show ?thesis unfolding calls_satisfy_def by blast
  qed
qed

lemma calls_satisfy_perform: "P c \<Longrightarrow> calls_satisfy P (perform c r)"
  by (simp add: calls_satisfy_def calls_of_perform)

lemma calls_satisfy_return: "calls_satisfy P (return x)"
  by (simp add: calls_satisfy_def calls_of_def return_def)

lemma calls_satisfy_throw: "calls_satisfy P (throw x)"
  by (simp add: calls_satisfy_def calls_of_def throw_def)





lemma ext_invalid:
  "new_URL l (in_path input) (Some (in_baseUrl input)) = None \<Longrightarrow>
   extractPageContentAndUrls l w b input d s = (Inl InvalidURL, s)"
  by (simp add: extractPageContentAndUrls_def)

lemma ext_valid:
  assumes "new_URL l (in_path input) (Some (in_baseUrl input)) = Some parsed"
  shows "snd (extractPageContentAndUrls l w b input d s) = snd (extract_try l w b (href parsed) input d s)"
    and "fst (extractPageContentAndUrls l w b input d s) =
           (case fst (extract_try l w b (href parsed) input d s) of
              Inl e \<Rightarrow> Inr [] | Inr discovered \<Rightarrow> Inr discovered)"
    and "calls_of (extractPageContentAndUrls l w b input d) s =
           calls_of (extract_try l w b (href parsed) input d) s"
  using assms
  by (simp_all add: extractPageContentAndUrls_def calls_of_def split: prod.splits sum.splits)


lemma ext_failed_call:
  assumes "(c, Some e) \<in> set (calls_of (extractPageContentAndUrls l w b input d) s)"
    and "\<forall>u. c \<noteq> FetchHead u"
  shows "fst (extractPageContentAndUrls l w b input d s) = Inr []"
proof (cases "new_URL l (in_path input) (Some (in_baseUrl input))")
  case None
  with assms(1) show ?thesis by (simp add: ext_invalid calls_of_def)
next
  case (Some parsed)
  note v = ext_valid[OF Some, of w b d s]
  from assms(1) have "(c, Some e) \<in> set (calls_of (extract_try l w b (href parsed) input d) s)"
    by (simp add: v(3))
  with propagates_extract_try assms(2)
  have "\<exists>e'. fst (extract_try l w b (href parsed) input d s) = Inl e'"
    unfolding propagates_def by blast
  then show ?thesis by (auto simp: v(2))
qed

lemma step_log_mark_fails:
  "markPathAsVisited_result w (contextTableName c) p = Inl e \<Longrightarrow>
   step_log l w p c s = [(MarkPathAsVisited (contextTableName c) p, Some e)]"
  by (simp add: step_log_def calls_of_def crawl_mark_fails)

lemma step_log_exe_fails:
  "markPathAsVisited_result w (contextTableName c) p = Inr u \<Longrightarrow>
   executablePath_result w = Inl e \<Longrightarrow>
   step_log l w p c s = [(MarkPathAsVisited (contextTableName c) p, None), (ExecutablePath, Some e)]"
  by (simp add: step_log_def calls_of_def crawl_exe_fails)

lemma step_log_launch_fails:
  "markPathAsVisited_result w (contextTableName c) p = Inr u \<Longrightarrow>
   executablePath_result w = Inr x \<Longrightarrow> launch_result w x = Inl e \<Longrightarrow>
   step_log l w p c s = [(MarkPathAsVisited (contextTableName c) p, None), (ExecutablePath, None),
                         (Launch x, Some e)]"
  by (simp add: step_log_def calls_of_def crawl_launch_fails)

lemma step_log_launched:
  assumes "markPathAsVisited_result w (contextTableName c) p = Inr u"
    and "executablePath_result w = Inr x" and "launch_result w x = Inr b"
    and s3: "s3 = s\<lparr>log := log s @ [(MarkPathAsVisited (contextTableName c) p, None),
                               (ExecutablePath, None), (Launch x, None)]\<rparr>"
    and input: "input = \<lparr>in_baseUrl = ctx_baseUrl c, in_path = p, in_pathKeywords = ctx_pathKeywords c\<rparr>"
    and d: "d = \<lparr>s3KeyPrefix = crawlName c\<rparr>"
  shows "step_log l w p c s =
           [(MarkPathAsVisited (contextTableName c) p, None), (ExecutablePath, None), (Launch x, None)]
           @ calls_of (extractPageContentAndUrls l w b input d) s3
           @ (case fst (extractPageContentAndUrls l w b input d s3) of
                Inl e \<Rightarrow> []
              | Inr urlPaths \<Rightarrow> [(QueuePaths (contextTableName c) urlPaths,
                                 failure (queuePaths_result w (contextTableName c) urlPaths))])
           @ [(Close b, failure (close_result w b))]"
    and "fst (crawlPageAndQueueUrls l w p c s) =
           (case close_result w b of Inl e \<Rightarrow> Inl e | Inr _ \<Rightarrow> Inr ())"
    and "objects (snd (crawlPageAndQueueUrls l w p c s)) =
           objects (snd (extractPageContentAndUrls l w b input d s3))"
proof -
  obtain r s' where ext: "extractPageContentAndUrls l w b input d s3 = (r, s')"
    by (cases "extractPageContentAndUrls l w b input d s3")
  note logs = ext_log[OF ext]
  note crawl = crawl_launched[OF assms(1-3) ext[unfolded s3 input d]]
  have log3: "log s3 = log s @ [(MarkPathAsVisited (contextTableName c) p, None),
                               (ExecutablePath, None), (Launch x, None)]"
    by (simp add: s3)
  show "step_log l w p c s =
           [(MarkPathAsVisited (contextTableName c) p, None), (ExecutablePath, None), (Launch x, None)]
           @ calls_of (extractPageContentAndUrls l w b input d) s3
           @ (case fst (extractPageContentAndUrls l w b input d s3) of
                Inl e \<Rightarrow> []
              | Inr urlPaths \<Rightarrow> [(QueuePaths (contextTableName c) urlPaths,
                                 failure (queuePaths_result w (contextTableName c) urlPaths))])
           @ [(Close b, failure (close_result w b))]"
    unfolding step_log_def calls_of_def[of "crawlPageAndQueueUrls l w p c"] crawl
    by (simp add: ext logs log3 close_after_def failure_def split: sum.splits)
  show "fst (crawlPageAndQueueUrls l w p c s) =
           (case close_result w b of Inl e \<Rightarrow> Inl e | Inr _ \<Rightarrow> Inr ())"
    unfolding crawl by (simp add: close_after_def split: sum.splits)
  show "objects (snd (crawlPageAndQueueUrls l w p c s)) =
           objects (snd (extractPageContentAndUrls l w b input d s3))"
    unfolding crawl by (simp add: ext close_after_def split: sum.splits)
qed

lemma step_cases:
  obtains (mark_fails) e where
      "markPathAsVisited_result w (contextTableName c) p = Inl e"
    | (executablePath_fails) u e where
      "markPathAsVisited_result w (contextTableName c) p = Inr u"
      "executablePath_result w = Inl e"
    | (launch_fails) u x e where
      "markPathAsVisited_result w (contextTableName c) p = Inr u"
      "executablePath_result w = Inr x" "launch_result w x = Inl e"
    | (launched) u x b where
      "markPathAsVisited_result w (contextTableName c) p = Inr u"
      "executablePath_result w = Inr x" "launch_result w x = Inr b"
proof (cases "markPathAsVisited_result w (contextTableName c) p")
  case (Inl e)
  then show ?thesis by (rule mark_fails)
next
  case m: (Inr u)
  show ?thesis
  proof (cases "executablePath_result w")
    case (Inl e)
    with m show ?thesis by (rule executablePath_fails)
  next
    case x: (Inr x)
    show ?thesis
    proof (cases "launch_result w x")
      case (Inl e)
      with m x show ?thesis by (rule launch_fails)
    next
      case (Inr b)
      with m x show ?thesis by (rule launched)
    qed
  qed
qed

lemma step_result:
  "fst (crawlPageAndQueueUrls l w p c s) = Inr ()
   \<or> (\<exists>b e. last (step_log l w p c s) = (Close b, Some e)
            \<and> fst (crawlPageAndQueueUrls l w p c s) = Inl e)"
proof (cases rule: step_cases[of w c p])
  case (mark_fails e)
  then show ?thesis by (simp add: crawl_mark_fails)
next
  case (executablePath_fails u e)
  then show ?thesis by (simp add: crawl_exe_fails)
next
  case (launch_fails u x e)
  then show ?thesis by (simp add: crawl_launch_fails)
next
  case (launched u x b)
  note l = step_log_launched[OF launched refl refl refl, of l s]
  show ?thesis
    unfolding l(1) l(2) by (simp add: failure_def split: sum.splits)
qed

lemma grows_step: "grows (crawlPageAndQueueUrls l w p c)"
proof (rule growsI)
  fix s
  show "\<exists>evs. log (snd (crawlPageAndQueueUrls l w p c s)) = log s @ evs"
  proof (cases rule: step_cases[of w c p])
    case (mark_fails e)
    then show ?thesis by (simp add: crawl_mark_fails)
  next
    case (executablePath_fails u e)
    then show ?thesis by (simp add: crawl_exe_fails)
  next
    case (launch_fails u x e)
    then show ?thesis by (simp add: crawl_launch_fails)
  next
    case (launched u x b)
    define s3 where "s3 = s\<lparr>log := log s @ [(MarkPathAsVisited (contextTableName c) p, None),
                               (ExecutablePath, None), (Launch x, None)]\<rparr>"
    obtain r s' where ext: "extractPageContentAndUrls l w b
           \<lparr>in_baseUrl = ctx_baseUrl c, in_path = p, in_pathKeywords = ctx_pathKeywords c\<rparr>
           \<lparr>s3KeyPrefix = crawlName c\<rparr> s3 = (r, s')"
      by (cases "extractPageContentAndUrls l w b
           \<lparr>in_baseUrl = ctx_baseUrl c, in_path = p, in_pathKeywords = ctx_pathKeywords c\<rparr>
           \<lparr>s3KeyPrefix = crawlName c\<rparr> s3")
    have "log s' = log s3 @ calls_of (extractPageContentAndUrls l w b
           \<lparr>in_baseUrl = ctx_baseUrl c, in_path = p, in_pathKeywords = ctx_pathKeywords c\<rparr>
           \<lparr>s3KeyPrefix = crawlName c\<rparr>) s3"
      by (rule ext_log[OF ext])
    moreover have "log s3 = log s @ [(MarkPathAsVisited (contextTableName c) p, None),
                               (ExecutablePath, None), (Launch x, None)]"
      by (simp add: s3_def)
    ultimately show ?thesis
      unfolding crawl_launched[OF launched ext[unfolded s3_def]]
      by (simp add: close_after_def split: sum.splits)
  qed
qed

lemma extract_try_calls: "calls_satisfy (\<lambda>c. \<not> step_only c) (extract_try l w b u input d)"
proof -
  have c: "calls_satisfy (\<lambda>c. \<not> step_only c) (extractContent l w pg)" for pg
    by (auto simp: calls_satisfy_def calls_of_def extractContent_state step_only_def)
  have p: "calls_satisfy (\<lambda>c. \<not> step_only c) (writePageToS3 l w u content d)" for content
    by (auto simp: calls_satisfy_def calls_of_def writePageToS3_def putObject_eq return_def
        Let_def step_only_def split: sum.splits if_splits)
  have g: "calls_satisfy (\<lambda>c. \<not> step_only c) (getLinksToFollow l w pg bs k)" for pg bs k
    unfolding getLinksToFollow_def Let_def
    by (intro calls_satisfy_await grows_await grows_perform calls_satisfy_perform)
       (simp_all add: grows_return grows_throw calls_satisfy_return calls_satisfy_throw
          step_only_def split: sum.splits)
  show ?thesis
    unfolding extract_try_def
    by (intro calls_satisfy_await grows_await grows_perform grows_extractContent
        grows_writePageToS3 grows_getLinksToFollow grows_return calls_satisfy_return
        calls_satisfy_perform c p g)
      (simp_all add: step_only_def)
qed

lemma ext_calls:
  "(k, out) \<in> set (calls_of (extractPageContentAndUrls l w b input d) s) \<Longrightarrow> \<not> step_only k"
proof (cases "new_URL l (in_path input) (Some (in_baseUrl input))")
  case None
  assume "(k, out) \<in> set (calls_of (extractPageContentAndUrls l w b input d) s)"
  with None show ?thesis by (simp add: ext_invalid calls_of_def)
next
  case (Some parsed)
  assume "(k, out) \<in> set (calls_of (extractPageContentAndUrls l w b input d) s)"
  with extract_try_calls show ?thesis
    unfolding ext_valid(3)[OF Some] calls_satisfy_def by blast
qed



lemma step_store_failure:
  assumes "(PutObject bucket key body, Some e) \<in> set (step_log l w p c s)"
  shows "\<forall>t ps out. (QueuePaths t ps, out) \<in> set (step_log l w p c s) \<longrightarrow> ps = []"
proof (cases rule: step_cases[of w c p])
  case (mark_fails e)
  with assms show ?thesis by (simp add: step_log_mark_fails)
next
  case (executablePath_fails u e)
  with assms show ?thesis by (auto simp: step_log_exe_fails)
next
  case (launch_fails u x e)
  with assms show ?thesis by (auto simp: step_log_launch_fails)
next
  case (launched u x b)
  define s3 where "s3 = s\<lparr>log := log s @ [(MarkPathAsVisited (contextTableName c) p, None),
                               (ExecutablePath, None), (Launch x, None)]\<rparr>"
  define input where "input = \<lparr>in_baseUrl = ctx_baseUrl c, in_path = p, in_pathKeywords = ctx_pathKeywords c\<rparr>"
  define d where "d = \<lparr>s3KeyPrefix = crawlName c\<rparr>"
  note l = step_log_launched[OF launched s3_def input_def d_def, of l]
  have "(PutObject bucket key body, Some e)
          \<in> set (calls_of (extractPageContentAndUrls l w b input d) s3)"
    using assms unfolding l(1) by (auto split: sum.splits)
  from ext_failed_call[OF this]
  have r: "fst (extractPageContentAndUrls l w b input d s3) = Inr []"
    by simp
  have q: "(QueuePaths t ps, out) \<notin> set (calls_of (extractPageContentAndUrls l w b input d) s3)"
    for t ps out
    using ext_calls[of "QueuePaths t ps" out l w b input d s3] by (auto simp: step_only_def)
  show ?thesis
    unfolding l(1) using q by (auto simp: r)
qed

lemma getLinksToFollow_ignores_its_filter:
  "getLinksToFollow l w pg baseUrl keywords s = getLinksToFollow l w pg baseUrl None s"
  unfolding getLinksToFollow_def ToBoolean_def by (rule refl)

text \<open>
  What \<open>getLinksToFollow\<close> returns: the same-site links made absolute. Neither the
  keywords nor the robots policy appear.
\<close>

lemma getLinksToFollow_result:
  "fst (getLinksToFollow l w pg baseUrl keywords s) =
     (case evaluate_hrefs w pg of
        Inl e \<Rightarrow> Inl e
      | Inr urls \<Rightarrow>
          (case evaluate_location_href w pg of
             Inl e \<Rightarrow> Inl e
           | Inr location_href \<Rightarrow>
               map_throwing (absolute_link l baseUrl location_href)
                 (same_site_hrefs baseUrl urls)))"
  unfolding getLinksToFollow_def ToBoolean_def Let_def relativeUrlBase_is_location
  by (simp add: await_def perform_def return_def throw_def split: sum.splits)

text \<open>
  The result of the \<open>try\<close> block of \<open>extractPageContentAndUrls\<close> in terms of the answers of
  the outside world. The HEAD request does not appear in it.
\<close>

lemma await_result:
  "fst (await m f s) = (case fst (m s) of Inl e \<Rightarrow> Inl e | Inr x \<Rightarrow> fst (f x (snd (m s))))"
  by (cases "m s") (auto simp: await_def split: sum.splits)

lemma writePageToS3_result:
  "fst (writePageToS3 l w u content d s) =
     (if html content = [] then Inr ()
      else putObject_result w (S3_DATA_BUCKET l)
             (path_join [s3KeyPrefix d, encodeURIComponent u @ ''.html''])
             (JSON_stringify l content))"
  by (simp add: writePageToS3_def return_def putObject_eq Let_def split: sum.splits)

lemma extract_try_result:
  "fst (extract_try l w b u input d s) =
     (case newPage_result w b of
        Inl e \<Rightarrow> Inl e
      | Inr pg \<Rightarrow>
          (case goto_result w pg u of
             Inl e \<Rightarrow> Inl e
           | Inr _ \<Rightarrow>
               (case evaluate_title w pg of
                  Inl e \<Rightarrow> Inl e
                | Inr t \<Rightarrow>
                    (case evaluate_innerHTML w pg of
                       Inl e \<Rightarrow> Inl e
                     | Inr h \<Rightarrow>
                         (case (if nhm_translate l h = [] then Inr ()
                                else putObject_result w (S3_DATA_BUCKET l)
                                       (path_join [s3KeyPrefix d, encodeURIComponent u @ ''.html''])
                                       (JSON_stringify l
                                          \<lparr>metadata = \<lparr>md_title = t, md_last_modified = [],
                                                        md_url = page_url w pg\<rparr>,
                                           html = nhm_translate l h\<rparr>)) of
                            Inl e \<Rightarrow> Inl e
                          | Inr _ \<Rightarrow>
                              (case evaluate_hrefs w pg of
                                 Inl e \<Rightarrow> Inl e
                               | Inr urls \<Rightarrow>
                                   (case evaluate_location_href w pg of
                                      Inl e \<Rightarrow> Inl e
                                    | Inr location_href \<Rightarrow>
                                        (case map_throwing
                                                (absolute_link l (in_baseUrl input) location_href)
                                                (same_site_hrefs (in_baseUrl input) urls) of
                                           Inl e \<Rightarrow> Inl e
                                         | Inr links \<Rightarrow>
                                             Inr (discoveredPaths l (Set_of links))))))))))"
  unfolding extract_try_def
  by (simp add: await_result perform_def extractContent_result writePageToS3_result
      getLinksToFollow_result return_def split: sum.splits)

lemma extract_try_ignores_head:
  "fst (extract_try l (w\<lparr>fetch_head := h\<rparr>) b u input d s) = fst (extract_try l w b u input d s)"
  by (simp add: extract_try_result split: sum.splits)


lemma ext_result:
  "fst (extractPageContentAndUrls l w b input d s) =
     (case new_URL l (in_path input) (Some (in_baseUrl input)) of
        None \<Rightarrow> Inl InvalidURL
      | Some parsed \<Rightarrow>
          (case fst (extract_try l w b (href parsed) input d s) of
             Inl e \<Rightarrow> Inr []
           | Inr discovered \<Rightarrow> Inr discovered))"
  by (simp add: extractPageContentAndUrls_def split: option.splits prod.splits sum.splits)

lemma ext_ignores_head:
  "fst (extractPageContentAndUrls l (w\<lparr>fetch_head := h\<rparr>) b input d s)
     = fst (extractPageContentAndUrls l w b input d s)"
  by (simp add: ext_result extract_try_ignores_head split: option.splits)

lemma discoveredPaths_skips_invalid:
  "new_URL l u None = None \<Longrightarrow> discoveredPaths l (us @ u # vs) = discoveredPaths l (us @ vs)"
  by (simp add: discoveredPaths_def)

subsection \<open>The logs of the example runs\<close>

lemma example_step_log:
  "step_log example_lib example_world ''/'' example_context empty_state =
     [(MarkPathAsVisited ''crawl-context'' ''/'', None), (ExecutablePath, None),
      (Launch ''/opt/bin/chromium'', None), (NewPage 2, None),
      (Goto 3 ''https://ex.com/'', None), (EvaluateTitle 3, None),
      (FetchHead ''https://ex.com/'', None), (EvaluateInnerHTML 3, None),
      (PutObject ''data-bucket'' ''docs/https%3A%2F%2Fex.com%2F.html''
         ''Home||https://ex.com/|<p>Welcome</p>'', None),
      (EvaluateHrefs 3, None), (EvaluateLocationHref 3, None),
      (QueuePaths ''crawl-context'' [''/about'', ''/blog/post''], None),
      (Close 2, None)]"
  by code_simp

lemma queue_fails_step_log:
  "step_log example_lib world_queue_fails ''/'' example_context empty_state =
     [(MarkPathAsVisited ''crawl-context'' ''/'', None), (ExecutablePath, None),
      (Launch ''/opt/bin/chromium'', None), (NewPage 2, None),
      (Goto 3 ''https://ex.com/'', None), (EvaluateTitle 3, None),
      (FetchHead ''https://ex.com/'', None), (EvaluateInnerHTML 3, None),
      (PutObject ''data-bucket'' ''docs/https%3A%2F%2Fex.com%2F.html''
         ''Home||https://ex.com/|<p>Welcome</p>'', None),
      (EvaluateHrefs 3, None), (EvaluateLocationHref 3, None),
      (QueuePaths ''crawl-context'' [''/about'', ''/blog/post''],
         Some (Thrown ''ProvisionedThroughputExceededException'')),
      (Close 2, None)]"
  by code_simp



lemma put_fails_calls:
  "calls_of (extractPageContentAndUrls example_lib world_put_fails 2 example_input
       example_destination) empty_state =
     [(NewPage 2, None), (Goto 3 ''https://ex.com/'', None), (EvaluateTitle 3, None),
      (FetchHead ''https://ex.com/'', None), (EvaluateInnerHTML 3, None),
      (PutObject ''data-bucket'' ''docs/https%3A%2F%2Fex.com%2F.html''
         ''Home||https://ex.com/|<p>Welcome</p>'', Some (Thrown ''AccessDenied''))]"
  by code_simp

section \<open>The link filter\<close>

lemma has_scheme_http:
  assumes "prefix ''http://'' u \<or> prefix ''https://'' u"
  shows "has_scheme u" "startsWith u ''http''"
proof -
  from assms obtain r where "u = ''http://'' @ r \<or> u = ''https://'' @ r"
    by (auto elim!: prefixE)
  then show "has_scheme u" "startsWith u ''http''"
    by (auto simp: has_scheme_def alpha_char_def scheme_char_def startsWith_def)
qed

lemma no_letter_no_scheme:
  assumes "u = [] \<or> \<not> alpha_char (hd u)"
  shows "\<not> has_scheme u" "\<not> startsWith u ''http''"
proof -
  show "\<not> has_scheme u"
    using assms by (cases u) (auto simp: has_scheme_def split: if_splits)
  show "\<not> startsWith u ''http''"
    using assms by (cases u) (auto simp: startsWith_def alpha_char_def)
qed

lemma toLowerCase_blog: "toLowerCase ''blog'' = ''blog''"
  by code_simp

text \<open>
  What \<open>isUrlWithinBaseWebsite\<close> computes, and where it agrees with the same-site test of
  the specification: on the candidates that begin with \<open>http://\<close> or \<open>https://\<close>, are
  empty or do not begin with a letter, the examples of the specification among them.
\<close>

lemma isUrlWithinBaseWebsite_prefix_test:
  "(isUrlWithinBaseWebsite u b \<longleftrightarrow> \<not> prefix ''http'' u \<or> prefix b u)
   \<and> (prefix ''http://'' u \<or> prefix ''https://'' u \<or> u = [] \<or> \<not> alpha_char (hd u)
        \<longrightarrow> isUrlWithinBaseWebsite u b = same_site_spec u b)
   \<and> isUrlWithinBaseWebsite ''/about'' ''https://ex.com''
   \<and> isUrlWithinBaseWebsite ''https://ex.com/x'' ''https://ex.com''
   \<and> \<not> isUrlWithinBaseWebsite ''https://other.com/x'' ''https://ex.com''"
proof -
  have "isUrlWithinBaseWebsite u b = same_site_spec u b"
    if "prefix ''http://'' u \<or> prefix ''https://'' u \<or> u = [] \<or> \<not> alpha_char (hd u)"
  proof -
    from that consider "prefix ''http://'' u \<or> prefix ''https://'' u"
      | "u = [] \<or> \<not> alpha_char (hd u)" by blast
    then show ?thesis
    proof cases
      case 1
      from has_scheme_http[OF 1] show ?thesis
        by (simp add: isUrlWithinBaseWebsite_def same_site_spec_def startsWith_def)
    next
      case 2
      from no_letter_no_scheme[OF 2] show ?thesis
        by (simp add: isUrlWithinBaseWebsite_def same_site_spec_def)
    qed
  qed
  then show ?thesis
    by (simp add: isUrlWithinBaseWebsite_def startsWith_def)
qed

text \<open>
  C6. A candidate should be same-site exactly when it has no scheme (it is relative) or it
  begins with the base URL, as the documentation of \<open>isUrlWithinBaseWebsite\<close> says too ("a
  relative link, or an absolute link that starts with the base url"). The function tests
  for the prefix \<open>http\<close> instead of a scheme: against the base \<open>https://ex.com\<close> the
  absolute link \<open>mailto:team@ex.com\<close> is classified as same-site, and the relative link
  \<open>http-status.html\<close> is excluded.
\<close>

theorem isUrlWithinBaseWebsite_misclassifies:
  "has_scheme ''mailto:team@ex.com''
   \<and> \<not> prefix ''https://ex.com'' ''mailto:team@ex.com''
   \<and> \<not> prefix ''mailto:team@ex.com'' ''https://ex.com''
   \<and> \<not> same_site_spec ''mailto:team@ex.com'' ''https://ex.com''
   \<and> isUrlWithinBaseWebsite ''mailto:team@ex.com'' ''https://ex.com''
   \<and> \<not> has_scheme ''http-status.html''
   \<and> same_site_spec ''http-status.html'' ''https://ex.com''
   \<and> \<not> isUrlWithinBaseWebsite ''http-status.html'' ''https://ex.com''"
  by (simp add: isUrlWithinBaseWebsite_def startsWith_def has_scheme_def same_site_spec_def
      alpha_char_def scheme_char_def)

text \<open>The mail address is kept.\<close>

theorem isUrlWithinBaseWebsite_misclassifies_witness:
  "isUrlWithinBaseWebsite ''mailto:team@ex.com'' ''https://ex.com''"
  using isUrlWithinBaseWebsite_misclassifies by blast

text \<open>
  What \<open>isUrlMatchingSomeKeyword\<close> computes: only the URL is lower-cased. For keywords
  written in lower case this is the case-insensitive match of the specification.
\<close>

lemma isUrlMatchingSomeKeyword_lowercased_url:
  "(isUrlMatchingSomeKeyword u kws \<longleftrightarrow>
      kws = None \<or> kws = Some [] \<or> (\<exists>ks. kws = Some ks \<and> (\<exists>k\<in>set ks. sublist k (toLowerCase u))))
   \<and> ((\<forall>k\<in>set ks. toLowerCase k = k)
        \<longrightarrow> isUrlMatchingSomeKeyword u (Some ks) = keyword_match_spec u (Some ks))
   \<and> (sublist ''blog'' u \<longrightarrow> isUrlMatchingSomeKeyword u (Some [''blog'']))
   \<and> isUrlMatchingSomeKeyword u None
   \<and> isUrlMatchingSomeKeyword u (Some [])"
proof -
  have a: "isUrlMatchingSomeKeyword u kws \<longleftrightarrow>
      kws = None \<or> kws = Some [] \<or> (\<exists>ks. kws = Some ks \<and> (\<exists>k\<in>set ks. sublist k (toLowerCase u)))"
    by (cases kws) (auto simp: isUrlMatchingSomeKeyword_def list_ex_iff str_includes_sublist)
  have b: "isUrlMatchingSomeKeyword u (Some ks) = keyword_match_spec u (Some ks)"
    if "\<forall>k\<in>set ks. toLowerCase k = k"
    using that
    by (auto simp: isUrlMatchingSomeKeyword_def keyword_match_spec_def list_ex_iff
        str_includes_sublist)
  have c: "isUrlMatchingSomeKeyword u (Some [''blog''])" if "sublist ''blog'' u"
    using toLowerCase_sublist[OF that]
    by (simp add: isUrlMatchingSomeKeyword_def str_includes_sublist toLowerCase_blog)
  show ?thesis
    using a b c by (simp add: isUrlMatchingSomeKeyword_def)
qed

text \<open>A keyword with a capital letter matches no URL at all.\<close>

lemma lower_case_is_not_capital: "of_char (toLowerCase_char c) \<noteq> (66::nat)"
proof -
  have lt: "(of_char c :: nat) < 256"
  proof -
    have "(of_char c :: nat) mod 256 < 256" by simp
    then show ?thesis by simp
  qed
  show ?thesis
  proof (cases "(65 \<le> (of_char c :: nat) \<and> (of_char c :: nat) \<le> 90)
                \<or> (192 \<le> (of_char c :: nat) \<and> (of_char c :: nat) \<le> 222 \<and> (of_char c :: nat) \<noteq> 215)")
    case True
    then have "toLowerCase_char c = char_of ((of_char c :: nat) + 32)"
      by (simp add: toLowerCase_char_def Let_def)
    moreover have "of_char (char_of ((of_char c :: nat) + 32)) = ((of_char c :: nat) + 32) mod 256"
      by simp
    moreover have "((of_char c :: nat) + 32) mod 256 \<noteq> 66"
      using True lt by auto
    ultimately show ?thesis by metis
  next
    case False
    then have "toLowerCase_char c = c"
      unfolding toLowerCase_char_def Let_def by (simp only: if_False)
    with False show ?thesis by auto
  qed
qed

lemma capital_B_not_in_lower_case: "CHR ''B'' \<notin> set (toLowerCase u)"
proof
  assume "CHR ''B'' \<in> set (toLowerCase u)"
  then obtain c where "toLowerCase_char c = CHR ''B''"
    by (auto simp: toLowerCase_def)
  then have "of_char (toLowerCase_char c) = (66::nat)"
    by simp
  with lower_case_is_not_capital show False
    by blast
qed

lemma capitalised_keyword_never_matches: "\<not> isUrlMatchingSomeKeyword u (Some [''Blog''])"
proof
  assume "isUrlMatchingSomeKeyword u (Some [''Blog''])"
  then have "sublist ''Blog'' (toLowerCase u)"
    by (simp add: isUrlMatchingSomeKeyword_def str_includes_sublist)
  then have "set ''Blog'' \<subseteq> set (toLowerCase u)"
    by (rule set_mono_sublist)
  then show False
    using capital_B_not_in_lower_case[of u] by simp
qed

text \<open>
  C7. A URL should match a keyword list when some keyword is a case-insensitive substring
  of it; the documentation of \<open>isUrlMatchingSomeKeyword\<close> asks for "any of the keywords
  included in the url". The function lower-cases the URL and not the keyword: the URL
  \<open>https://ex.com/Blog/post\<close> contains the keyword \<open>Blog\<close> as it is written, and the
  function answers false.
\<close>

theorem isUrlMatchingSomeKeyword_misses_capitalised_keyword:
  "sublist ''Blog'' ''https://ex.com/Blog/post''
   \<and> keyword_match_spec ''https://ex.com/Blog/post'' (Some [''Blog''])
   \<and> \<not> isUrlMatchingSomeKeyword ''https://ex.com/Blog/post'' (Some [''Blog''])"
  by code_simp

text \<open>The specification's match holds at this input.\<close>

theorem isUrlMatchingSomeKeyword_misses_capitalised_keyword_witness:
  "keyword_match_spec ''https://ex.com/Blog/post'' (Some [''Blog''])"
  using isUrlMatchingSomeKeyword_misses_capitalised_keyword by blast

section \<open>Link discovery\<close>

text \<open>
  C1. A link that \<open>getLinksToFollow\<close> returns should be same-site, allowed by the robots
  policy and matching a keyword. On the example page, crawled for the keyword \<open>blog\<close>, the
  function returns \<open>https://ex.com/about\<close>, which robots.txt disallows and which matches no
  keyword: the predicate given to \<open>filter\<close> is an \<open>async\<close> function, its value is a promise,
  and a promise is truthy.
\<close>

theorem getLinksToFollow_keeps_excluded_link:
  "fst (getLinksToFollow example_lib example_world 3 ''https://ex.com'' (Some [''blog''])
          empty_state)
     = Inr [''https://ex.com/about'', ''https://ex.com/blog/post'']
   \<and> \<not> isUrlAllowedInRobots example_lib example_world ''https://ex.com/about''
   \<and> \<not> isUrlMatchingSomeKeyword ''https://ex.com/about'' (Some [''blog''])"
  by code_simp

section \<open>Content extraction\<close>

text \<open>
  C3. The \<open>last-modified\<close> field should be the Last-Modified header of a successful HEAD
  request. On the example site the HEAD request succeeds and carries the header, and
  \<open>getLastModified\<close> returns the empty string, which \<open>extractContent\<close> stores: the
  \<open>return ''\<close> of the \<open>finally\<close> block replaces the value returned in the \<open>try\<close> block.
\<close>

theorem last_modified_header_is_dropped:
  "fetch_head example_world ''https://ex.com/''
     = Inr \<lparr>ok = True, header_Last_Modified = Some ''Wed, 21 Oct 2015 07:28:00 GMT''\<rparr>
   \<and> fst (getLastModified example_world ''https://ex.com/'' empty_state) = Inr []
   \<and> fst (extractContent example_lib example_world 3 empty_state)
     = Inr \<lparr>metadata = \<lparr>md_title = ''Home'', md_last_modified = [],
                          md_url = ''https://ex.com/''\<rparr>,
            html = ''<p>Welcome</p>''\<rparr>"
  by (simp add: getLastModified_eq extractContent_result example_world_def example_lib_def)

section \<open>Writing the page\<close>

text \<open>
  C8 (as amended). \<open>writePageToS3\<close> issues no write when the extracted text is empty. When it
  is not empty it issues exactly one write, of the serialised content under the key
  \<open>path.join(s3KeyPrefix, encodeURIComponent(url) + ".html")\<close>; the object is stored when the
  write succeeds, and when it fails the error leaves \<open>writePageToS3\<close> and nothing is stored.
  The key is \<open>s3KeyPrefix/encodeURIComponent(url).html\<close> whenever the prefix is a path whose
  segments are neither empty nor \<open>.\<close> nor \<open>..\<close>.
\<close>

theorem writePageToS3_writes_nonempty_content:
  "(html content = [] \<longrightarrow> writePageToS3 l w u content d s = (Inr (), s))
   \<and> (html content \<noteq> [] \<longrightarrow>
         calls_of (writePageToS3 l w u content d) s =
           [(PutObject (S3_DATA_BUCKET l)
               (path_join [s3KeyPrefix d, encodeURIComponent u @ ''.html''])
               (JSON_stringify l content),
             failure (putObject_result w (S3_DATA_BUCKET l)
               (path_join [s3KeyPrefix d, encodeURIComponent u @ ''.html''])
               (JSON_stringify l content)))]
       \<and> (putObject_result w (S3_DATA_BUCKET l)
               (path_join [s3KeyPrefix d, encodeURIComponent u @ ''.html''])
               (JSON_stringify l content) = Inr ()
            \<longrightarrow> fst (writePageToS3 l w u content d s) = Inr ()
              \<and> objects (snd (writePageToS3 l w u content d s)) =
                  (objects s)((S3_DATA_BUCKET l,
                               path_join [s3KeyPrefix d, encodeURIComponent u @ ''.html''])
                              \<mapsto> JSON_stringify l content))
       \<and> (\<forall>e. putObject_result w (S3_DATA_BUCKET l)
               (path_join [s3KeyPrefix d, encodeURIComponent u @ ''.html''])
               (JSON_stringify l content) = Inl e
            \<longrightarrow> fst (writePageToS3 l w u content d s) = Inl e
              \<and> objects (snd (writePageToS3 l w u content d s)) = objects s))
   \<and> ((\<forall>seg\<in>set (split_on CHR ''/'' (s3KeyPrefix d)). plain_segment seg)
        \<longrightarrow> path_join [s3KeyPrefix d, encodeURIComponent u @ ''.html'']
              = s3KeyPrefix d @ ''/'' @ encodeURIComponent u @ ''.html'')"
proof (intro conjI impI allI)
  assume "html content = []"
  then show "writePageToS3 l w u content d s = (Inr (), s)"
    by (simp add: writePageToS3_def return_def)
next
  assume n: "html content \<noteq> []"
  let ?key = "path_join [s3KeyPrefix d, encodeURIComponent u @ ''.html'']"
  have eq: "writePageToS3 l w u content d s = putObject l w ?key (JSON_stringify l content) s"
    using n by (simp add: writePageToS3_def Let_def)
  show "calls_of (writePageToS3 l w u content d) s =
           [(PutObject (S3_DATA_BUCKET l) ?key (JSON_stringify l content),
             failure (putObject_result w (S3_DATA_BUCKET l) ?key (JSON_stringify l content)))]"
    unfolding calls_of_def eq by (simp add: putObject_eq failure_def split: sum.splits)
  show "fst (writePageToS3 l w u content d s) = Inr ()"
    if "putObject_result w (S3_DATA_BUCKET l) ?key (JSON_stringify l content) = Inr ()"
    unfolding eq using that by (simp add: putObject_eq)
  show "objects (snd (writePageToS3 l w u content d s)) =
          (objects s)((S3_DATA_BUCKET l, ?key) \<mapsto> JSON_stringify l content)"
    if "putObject_result w (S3_DATA_BUCKET l) ?key (JSON_stringify l content) = Inr ()"
    unfolding eq using that by (simp add: putObject_eq)
  show "fst (writePageToS3 l w u content d s) = Inl e"
    if "putObject_result w (S3_DATA_BUCKET l) ?key (JSON_stringify l content) = Inl e" for e
    unfolding eq using that by (simp add: putObject_eq)
  show "objects (snd (writePageToS3 l w u content d s)) = objects s"
    if "putObject_result w (S3_DATA_BUCKET l) ?key (JSON_stringify l content) = Inl e" for e
    unfolding eq using that by (simp add: putObject_eq)
next
  assume "\<forall>seg\<in>set (split_on CHR ''/'' (s3KeyPrefix d)). plain_segment seg"
  then show "path_join [s3KeyPrefix d, encodeURIComponent u @ ''.html'']
              = s3KeyPrefix d @ ''/'' @ encodeURIComponent u @ ''.html''"
    by (rule path_join_plain) (rule document_name_plain)+
qed

text \<open>The theorem at the example page and the prefix \<open>docs\<close>.\<close>

theorem writePageToS3_writes_nonempty_content_witness:
  "html example_content \<noteq> []
   \<and> putObject_result example_world (S3_DATA_BUCKET example_lib)
        ''docs/https%3A%2F%2Fex.com%2F.html'' (JSON_stringify example_lib example_content) = Inr ()
   \<and> path_join [s3KeyPrefix example_destination, encodeURIComponent ''https://ex.com/'' @ ''.html'']
       = ''docs/https%3A%2F%2Fex.com%2F.html''
   \<and> fst (writePageToS3 example_lib example_world ''https://ex.com/'' example_content
            example_destination empty_state) = Inr ()
   \<and> objects (snd (writePageToS3 example_lib example_world ''https://ex.com/'' example_content
                     example_destination empty_state))
         (''data-bucket'', ''docs/https%3A%2F%2Fex.com%2F.html'')
       = Some ''Home||https://ex.com/|<p>Welcome</p>''"
proof -
  have n: "html example_content \<noteq> []"
    by (simp add: example_content_def)
  have p: "\<forall>seg\<in>set (split_on CHR ''/'' (s3KeyPrefix example_destination)). plain_segment seg"
    by (simp add: example_destination_def plain_segment_def)
  note t = writePageToS3_writes_nonempty_content[of example_content example_lib example_world
      "''https://ex.com/''" example_destination empty_state]
  from t p have k: "path_join [s3KeyPrefix example_destination,
                       encodeURIComponent ''https://ex.com/'' @ ''.html'']
       = ''docs/https%3A%2F%2Fex.com%2F.html''"
    by (simp add: example_destination_def encoded_example_url)
  have r: "putObject_result example_world (S3_DATA_BUCKET example_lib)
        ''docs/https%3A%2F%2Fex.com%2F.html'' (JSON_stringify example_lib example_content) = Inr ()"
    by (simp add: example_world_def)
  from t n r have "fst (writePageToS3 example_lib example_world ''https://ex.com/''
                      example_content example_destination empty_state) = Inr ()
     \<and> objects (snd (writePageToS3 example_lib example_world ''https://ex.com/'' example_content
                     example_destination empty_state))
         = (objects empty_state)((S3_DATA_BUCKET example_lib, ''docs/https%3A%2F%2Fex.com%2F.html'')
              \<mapsto> JSON_stringify example_lib example_content)"
    unfolding k by blast
  then show ?thesis
    using n r k by (simp add: example_lib_def example_content_def)
qed

text \<open>
  With the prefix \<open>docs/\<close> the content is not empty, the write succeeds, and nothing is
  stored under \<open>docs//https%3A%2F%2Fex.com%2F.html\<close>, the prefix followed by \<open>/\<close> and the
  encoded name: \<open>path.join\<close> normalises the key to \<open>docs/https%3A%2F%2Fex.com%2F.html\<close>.
\<close>

theorem document_key_counterexample:
  "html example_content \<noteq> []
   \<and> fst (writePageToS3 example_lib example_world ''https://ex.com/'' example_content
            destination_with_slash empty_state) = Inr ()
   \<and> s3KeyPrefix destination_with_slash @ ''/'' @ encodeURIComponent ''https://ex.com/'' @ ''.html''
       = ''docs//https%3A%2F%2Fex.com%2F.html''
   \<and> objects (snd (writePageToS3 example_lib example_world ''https://ex.com/'' example_content
                     destination_with_slash empty_state))
         (''data-bucket'', ''docs//https%3A%2F%2Fex.com%2F.html'') = None
   \<and> objects (snd (writePageToS3 example_lib example_world ''https://ex.com/'' example_content
                     destination_with_slash empty_state))
         (''data-bucket'', ''docs/https%3A%2F%2Fex.com%2F.html'')
       = Some ''Home||https://ex.com/|<p>Welcome</p>''"
  by code_simp

section \<open>Failures of one page\<close>

text \<open>
  C10 (as amended). \<open>extractPageContentAndUrls\<close> builds the URL before its \<open>try\<close> block: when
  the path and the base URL do not make a valid URL it throws to its caller and changes
  nothing. Once the URL is built it always returns a list, and the list is empty whenever
  an error ends the \<open>try\<close> block, in particular whenever a call it awaits fails, the HEAD
  request apart. The failures that are absorbed where they occur do not empty the list:
  the outcome of the HEAD request has no influence on the result, and a discovered URL
  that \<open>new URL\<close> rejects is skipped.
\<close>

theorem extract_throws_only_for_invalid_url:
  "(new_URL l (in_path input) (Some (in_baseUrl input)) = None
      \<longrightarrow> extractPageContentAndUrls l w b input d s = (Inl InvalidURL, s))
   \<and> (\<forall>parsed. new_URL l (in_path input) (Some (in_baseUrl input)) = Some parsed \<longrightarrow>
          (\<exists>paths. fst (extractPageContentAndUrls l w b input d s) = Inr paths)
        \<and> ((\<exists>e. fst (extract_try l w b (href parsed) input d s) = Inl e)
             \<longrightarrow> fst (extractPageContentAndUrls l w b input d s) = Inr [])
        \<and> (\<forall>k e. (k, Some e) \<in> set (calls_of (extractPageContentAndUrls l w b input d) s)
                    \<and> (\<forall>u. k \<noteq> FetchHead u)
               \<longrightarrow> fst (extractPageContentAndUrls l w b input d s) = Inr []))
   \<and> fst (extractPageContentAndUrls l (w\<lparr>fetch_head := h\<rparr>) b input d s)
       = fst (extractPageContentAndUrls l w b input d s)
   \<and> (new_URL l u None = None
        \<longrightarrow> discoveredPaths l (us @ u # vs) = discoveredPaths l (us @ vs))"
proof (intro conjI impI allI)
  assume "new_URL l (in_path input) (Some (in_baseUrl input)) = None"
  then show "extractPageContentAndUrls l w b input d s = (Inl InvalidURL, s)"
    by (rule ext_invalid)
next
  fix parsed
  assume v: "new_URL l (in_path input) (Some (in_baseUrl input)) = Some parsed"
  show "\<exists>paths. fst (extractPageContentAndUrls l w b input d s) = Inr paths"
    by (simp add: ext_valid(2)[OF v] split: sum.splits)
  show "fst (extractPageContentAndUrls l w b input d s) = Inr []"
    if "\<exists>e. fst (extract_try l w b (href parsed) input d s) = Inl e"
    using that by (auto simp: ext_valid(2)[OF v])
next
  fix parsed k e
  assume "(k, Some e) \<in> set (calls_of (extractPageContentAndUrls l w b input d) s)
            \<and> (\<forall>u. k \<noteq> FetchHead u)"
  then show "fst (extractPageContentAndUrls l w b input d s) = Inr []"
    using ext_failed_call by blast
next
  show "fst (extractPageContentAndUrls l (w\<lparr>fetch_head := h\<rparr>) b input d s)
       = fst (extractPageContentAndUrls l w b input d s)"
    by (rule ext_ignores_head)
next
  assume "new_URL l u None = None"
  then show "discoveredPaths l (us @ u # vs) = discoveredPaths l (us @ vs)"
    by (rule discoveredPaths_skips_invalid)
qed

text \<open>The theorem at a base URL without scheme, and at a blob store that refuses the write.\<close>

theorem extract_throws_only_for_invalid_url_witness:
  "new_URL example_lib (in_path input_without_scheme) (Some (in_baseUrl input_without_scheme))
     = None
   \<and> extractPageContentAndUrls example_lib example_world 2 input_without_scheme
        example_destination empty_state = (Inl InvalidURL, empty_state)
   \<and> new_URL example_lib (in_path example_input) (Some (in_baseUrl example_input))
     = Some \<lparr>href = ''https://ex.com/'', origin = ''https://ex.com'', pathname = ''/''\<rparr>
   \<and> (PutObject ''data-bucket'' ''docs/https%3A%2F%2Fex.com%2F.html''
         ''Home||https://ex.com/|<p>Welcome</p>'', Some (Thrown ''AccessDenied''))
       \<in> set (calls_of (extractPageContentAndUrls example_lib world_put_fails 2 example_input
                  example_destination) empty_state)
   \<and> fst (extractPageContentAndUrls example_lib world_put_fails 2 example_input
            example_destination empty_state) = Inr []"
proof -
  have i: "new_URL example_lib (in_path input_without_scheme)
             (Some (in_baseUrl input_without_scheme)) = None"
    by (simp add: example_lib_def input_without_scheme_def example_new_URL_def)
  have v: "new_URL example_lib (in_path example_input) (Some (in_baseUrl example_input))
     = Some \<lparr>href = ''https://ex.com/'', origin = ''https://ex.com'', pathname = ''/''\<rparr>"
    by (simp add: example_lib_def example_input_def example_new_URL_def)
  have c: "(PutObject ''data-bucket'' ''docs/https%3A%2F%2Fex.com%2F.html''
         ''Home||https://ex.com/|<p>Welcome</p>'', Some (Thrown ''AccessDenied''))
       \<in> set (calls_of (extractPageContentAndUrls example_lib world_put_fails 2 example_input
                  example_destination) empty_state)"
    by (simp add: put_fails_calls)
  from extract_throws_only_for_invalid_url[of example_lib input_without_scheme example_world 2
      example_destination empty_state] i
  have 1: "extractPageContentAndUrls example_lib example_world 2 input_without_scheme
        example_destination empty_state = (Inl InvalidURL, empty_state)"
    by blast
  have "\<forall>u. PutObject ''data-bucket'' ''docs/https%3A%2F%2Fex.com%2F.html''
         ''Home||https://ex.com/|<p>Welcome</p>'' \<noteq> FetchHead u"
    by simp
  with extract_throws_only_for_invalid_url[of example_lib example_input world_put_fails 2
      example_destination empty_state] v c
  have 2: "fst (extractPageContentAndUrls example_lib world_put_fails 2 example_input
            example_destination empty_state) = Inr []"
    by blast
  from i v c 1 2 show ?thesis
    by blast
qed

text \<open>
  Two failures after the URL is built that do not yield the empty list: a HEAD request
  that fails, and a discovered link (\<open>nullteam@ex.com\<close>, made of a mail address) that
  \<open>new URL\<close> rejects.
\<close>

theorem absorbed_failures_counterexample:
  "new_URL example_lib (in_path example_input) (Some (in_baseUrl example_input))
     = Some \<lparr>href = ''https://ex.com/'', origin = ''https://ex.com'', pathname = ''/''\<rparr>
   \<and> (FetchHead ''https://ex.com/'', Some (Thrown ''ECONNRESET''))
       \<in> set (calls_of (extractPageContentAndUrls example_lib world_head_fails 2 example_input
                  example_destination) empty_state)
   \<and> fst (extractPageContentAndUrls example_lib world_head_fails 2 example_input
            example_destination empty_state) = Inr [''/about'', ''/blog/post'']
   \<and> fst (getLinksToFollow example_lib world_mailto_link 3 ''https://ex.com'' (Some [''blog''])
            empty_state) = Inr [''nullteam@ex.com'', ''https://ex.com/blog/post'']
   \<and> new_URL example_lib ''nullteam@ex.com'' None = None
   \<and> fst (extractPageContentAndUrls example_lib world_mailto_link 2 example_input
            example_destination empty_state) = Inr [''/blog/post'']"
  by code_simp




text \<open>
  The \<open>finally\<close> block awaits \<open>browser.close()\<close> outside any handler: a run in which the
  navigation and the closing both fail.
\<close>

lemma close_failure_leaves_the_step:
  "fails_the_page (Goto 3 ''https://ex.com/'')
   \<and> (Goto 3 ''https://ex.com/'', Some (Thrown ''net::ERR_CONNECTION_REFUSED''))
       \<in> set (step_log example_lib world_goto_and_close_fail ''/'' example_context empty_state)
   \<and> fst (crawlPageAndQueueUrls example_lib world_goto_and_close_fail ''/'' example_context
            empty_state) = Inl (Thrown ''Protocol error: Target closed'')"
  by code_simp

section \<open>The step and the stores\<close>

text \<open>
  C2. A run of \<open>crawlPageAndQueueUrls\<close> appends its calls to the log. The first of them is
  \<open>markPathAsVisited\<close> for the path of the step, and every other call (the browser
  launch, the navigation, the extraction, the writes) is made only after it has
  completed without error.
\<close>

theorem marked_visited_before_fetch:
  "log (snd (crawlPageAndQueueUrls l w p c s)) = log s @ step_log l w p c s
   \<and> (\<exists>out rest. step_log l w p c s = (MarkPathAsVisited (contextTableName c) p, out) # rest
          \<and> (rest \<noteq> [] \<longrightarrow> out = None))"
proof
  show "log (snd (crawlPageAndQueueUrls l w p c s)) = log s @ step_log l w p c s"
    using grows_step[of l w p c] unfolding grows_def step_log_def by blast
  show "\<exists>out rest. step_log l w p c s = (MarkPathAsVisited (contextTableName c) p, out) # rest
          \<and> (rest \<noteq> [] \<longrightarrow> out = None)"
  proof (cases rule: step_cases[of w c p])
    case (mark_fails e)
    then show ?thesis by (simp add: step_log_mark_fails)
  next
    case (executablePath_fails u e)
    then show ?thesis by (simp add: step_log_exe_fails)
  next
    case (launch_fails u x e)
    then show ?thesis by (simp add: step_log_launch_fails)
  next
    case (launched u x b)
    show ?thesis
      unfolding step_log_launched(1)[OF launched refl refl refl] by simp
  qed
qed

text \<open>The theorem at the example site: the mark is first, the launch comes later.\<close>

theorem marked_visited_before_fetch_witness:
  "hd (step_log example_lib example_world ''/'' example_context empty_state)
     = (MarkPathAsVisited ''crawl-context'' ''/'', None)
   \<and> (Launch ''/opt/bin/chromium'', None)
       \<in> set (tl (step_log example_lib example_world ''/'' example_context empty_state))"
proof -
  from marked_visited_before_fetch[of example_lib example_world "''/''" example_context empty_state]
  obtain out rest where
    "step_log example_lib example_world ''/'' example_context empty_state
       = (MarkPathAsVisited (contextTableName example_context) ''/'', out) # rest"
    "rest \<noteq> [] \<longrightarrow> out = None"
    by blast
  then show ?thesis
    by (simp add: example_step_log)
qed

text \<open>
  C9. When \<open>markPathAsVisited\<close> throws, the error is caught: the failed mark is the only
  call of the step (no browser is launched, no page is fetched, no path is queued),
  nothing is stored and the step returns \<open>{}\<close>.
\<close>

theorem failed_mark_is_swallowed:
  assumes "markPathAsVisited_result w (contextTableName c) p = Inl e"
  shows "crawlPageAndQueueUrls l w p c s =
           (Inr (), s\<lparr>log := log s @ [(MarkPathAsVisited (contextTableName c) p, Some e)]\<rparr>)
       \<and> step_log l w p c s = [(MarkPathAsVisited (contextTableName c) p, Some e)]
       \<and> objects (snd (crawlPageAndQueueUrls l w p c s)) = objects s"
proof -
  have "crawl_try l w p c s =
          ((Inl e, None), s\<lparr>log := log s @ [(MarkPathAsVisited (contextTableName c) p, Some e)]\<rparr>)"
    using assms by (simp add: crawl_try_def perform_def failure_def)
  then have "crawlPageAndQueueUrls l w p c s =
           (Inr (), s\<lparr>log := log s @ [(MarkPathAsVisited (contextTableName c) p, Some e)]\<rparr>)"
    by (simp add: crawlPageAndQueueUrls_def)
  then show ?thesis
    by (simp add: step_log_def calls_of_def)
qed

text \<open>The theorem at a frontier store that rejects the mark.\<close>

theorem failed_mark_is_swallowed_witness:
  "markPathAsVisited_result world_mark_fails (contextTableName example_context) ''/''
     = Inl (Thrown ''ProvisionedThroughputExceededException'')
   \<and> crawlPageAndQueueUrls example_lib world_mark_fails ''/'' example_context empty_state
     = (Inr (), \<lparr>log = [(MarkPathAsVisited ''crawl-context'' ''/'',
                          Some (Thrown ''ProvisionedThroughputExceededException''))],
                 objects = (\<lambda>k. None)\<rparr>)"
proof -
  have h: "markPathAsVisited_result world_mark_fails (contextTableName example_context) ''/''
             = Inl (Thrown ''ProvisionedThroughputExceededException'')"
    by (simp add: world_mark_fails_def)
  from failed_mark_is_swallowed[OF h, of example_lib empty_state] h show ?thesis
    by (simp add: empty_state_def example_context_def)
qed

text \<open>
  C4 (as amended). When \<open>markPathAsVisited\<close>, \<open>queuePaths\<close> or the blob-store write fails,
  the error is handled inside the step: the step returns \<open>{}\<close>, and the only error it lets
  through is that of \<open>browser.close()\<close>. A failed blob-store write is handled already in
  \<open>extractPageContentAndUrls\<close>, which returns the empty list, so that no path is queued.
\<close>

theorem store_failures_are_swallowed:
  assumes "(k, Some e) \<in> set (step_log l w p c s)" and "store_operation k"
  shows "(fst (crawlPageAndQueueUrls l w p c s) = Inr ()
          \<or> (\<exists>b e'. last (step_log l w p c s) = (Close b, Some e')
                 \<and> fst (crawlPageAndQueueUrls l w p c s) = Inl e'))
       \<and> ((\<exists>bucket key body. k = PutObject bucket key body)
            \<longrightarrow> (\<forall>t ps out. (QueuePaths t ps, out) \<in> set (step_log l w p c s) \<longrightarrow> ps = []))"
  using step_result[of l w p c s] step_store_failure[of _ _ _ e l w p c s] assms(1)
  by blast

text \<open>The theorem at a frontier store that rejects \<open>queuePaths\<close>.\<close>

theorem store_failures_are_swallowed_witness:
  "(QueuePaths ''crawl-context'' [''/about'', ''/blog/post''],
      Some (Thrown ''ProvisionedThroughputExceededException''))
     \<in> set (step_log example_lib world_queue_fails ''/'' example_context empty_state)
   \<and> store_operation (QueuePaths ''crawl-context'' [''/about'', ''/blog/post''])
   \<and> fst (crawlPageAndQueueUrls example_lib world_queue_fails ''/'' example_context empty_state)
       = Inr ()"
proof -
  have h: "(QueuePaths ''crawl-context'' [''/about'', ''/blog/post''],
      Some (Thrown ''ProvisionedThroughputExceededException''))
     \<in> set (step_log example_lib world_queue_fails ''/'' example_context empty_state)"
    by (simp add: queue_fails_step_log)
  have o: "store_operation (QueuePaths ''crawl-context'' [''/about'', ''/blog/post''])"
    by (simp add: store_operation_def)
  from store_failures_are_swallowed[OF h o] h o show ?thesis
    by (simp add: queue_fails_step_log)
qed

text \<open>
  Each of the three store failures occurs in a run of the step that returns \<open>{}\<close>: the
  error does not reach the scheduler.
\<close>

theorem store_failure_counterexample:
  "(MarkPathAsVisited ''crawl-context'' ''/'',
      Some (Thrown ''ProvisionedThroughputExceededException''))
     \<in> set (step_log example_lib world_mark_fails ''/'' example_context empty_state)
   \<and> fst (crawlPageAndQueueUrls example_lib world_mark_fails ''/'' example_context empty_state)
       = Inr ()
   \<and> (QueuePaths ''crawl-context'' [''/about'', ''/blog/post''],
      Some (Thrown ''ProvisionedThroughputExceededException''))
     \<in> set (step_log example_lib world_queue_fails ''/'' example_context empty_state)
   \<and> fst (crawlPageAndQueueUrls example_lib world_queue_fails ''/'' example_context empty_state)
       = Inr ()
   \<and> (PutObject ''data-bucket'' ''docs/https%3A%2F%2Fex.com%2F.html''
         ''Home||https://ex.com/|<p>Welcome</p>'', Some (Thrown ''AccessDenied''))
     \<in> set (step_log example_lib world_put_fails ''/'' example_context empty_state)
   \<and> fst (extractPageContentAndUrls example_lib world_put_fails 2 example_input
            example_destination empty_state) = Inr []
   \<and> fst (crawlPageAndQueueUrls example_lib world_put_fails ''/'' example_context empty_state)
       = Inr ()"
  by code_simp

end
